theory Spec2Isabelle
  imports Complex_Main
begin

section \<open>Errors, calendar values and the environment\<close>

text \<open>
  The service is the FastAPI application of \<^verbatim>\<open>main.py\<close>. Every exception the
  modelled code can raise is a value of \<open>error\<close>: \<^verbatim>\<open>ValueError\<close> (an invalid calendar
  field, an empty \<^verbatim>\<open>randint\<close> range, a sample larger than its population),
  \<^verbatim>\<open>IndexError\<close> (\<^verbatim>\<open>random.choice\<close> of an empty sequence), \<^verbatim>\<open>ZeroDivisionError\<close>
  and the request validation error that FastAPI answers with status 422.
\<close>

datatype error = ValueError | IndexError | ZeroDivisionError | RequestValidationError

fun status_code :: "error \<Rightarrow> nat" where
  "status_code RequestValidationError = 422"
| "status_code ValueError = 500"
| "status_code IndexError = 500"
| "status_code ZeroDivisionError = 500"

text \<open>
  \<^verbatim>\<open>datetime.date\<close> and its subclass \<^verbatim>\<open>datetime.datetime\<close> (naive: no tzinfo),
  with Python's unbounded integers as \<open>int\<close>. The attribute \<^verbatim>\<open>fold\<close> (here
  \<open>fold_field\<close>) is 0 or 1: it tells the two passes through a repeated wall-clock
  hour apart, \<^verbatim>\<open>datetime.now()\<close> sets it to 1 in the second pass, and neither
  \<^verbatim>\<open>isoformat\<close> nor \<^verbatim>\<open>strftime\<close> writes it.
\<close>

record date =
  year :: int
  month :: int
  day :: int

record datetime = date +
  hour :: int
  minute :: int
  second :: int
  microsecond :: int
  fold_field :: int

definition is_leap :: "int \<Rightarrow> bool" where
  "is_leap y \<longleftrightarrow> y mod 4 = 0 \<and> (y mod 100 \<noteq> 0 \<or> y mod 400 = 0)"

definition DAYS_IN_MONTH :: "int list" where
  "DAYS_IN_MONTH = [31, 28, 31, 30, 31, 30, 31, 31, 30, 31, 30, 31]"

text \<open>Called only with \<open>1 \<le> m \<le> 12\<close> (the caller checks the month first).\<close>

definition days_in_month :: "int \<Rightarrow> int \<Rightarrow> int" where
  "days_in_month y m =
     (if m = 2 \<and> is_leap y then 29 else DAYS_IN_MONTH ! nat (m - 1))"

definition check_date_fields :: "int \<Rightarrow> int \<Rightarrow> int \<Rightarrow> bool" where
  "check_date_fields y m d \<longleftrightarrow>
     1 \<le> y \<and> y \<le> 9999 \<and> 1 \<le> m \<and> m \<le> 12 \<and> 1 \<le> d \<and> d \<le> days_in_month y m"

definition check_time_fields :: "int \<Rightarrow> int \<Rightarrow> int \<Rightarrow> int \<Rightarrow> int \<Rightarrow> bool" where
  "check_time_fields h mi s us f \<longleftrightarrow>
     0 \<le> h \<and> h \<le> 23 \<and> 0 \<le> mi \<and> mi \<le> 59 \<and> 0 \<le> s \<and> s \<le> 59 \<and> 0 \<le> us \<and> us \<le> 999999 \<and>
     (f = 0 \<or> f = 1)"

text \<open>The constructor \<^verbatim>\<open>date(year, month, day)\<close>: \<^verbatim>\<open>ValueError\<close> on a field out of range.\<close>

definition new_date :: "int \<Rightarrow> int \<Rightarrow> int \<Rightarrow> error + date" where
  "new_date y m d =
     (if check_date_fields y m d then Inr \<lparr>year = y, month = m, day = d\<rparr>
      else Inl ValueError)"

definition new_datetime ::
  "int \<Rightarrow> int \<Rightarrow> int \<Rightarrow> int \<Rightarrow> int \<Rightarrow> int \<Rightarrow> int \<Rightarrow> int \<Rightarrow> error + datetime" where
  "new_datetime y m d h mi s us f =
     (if check_date_fields y m d \<and> check_time_fields h mi s us f
      then Inr \<lparr>year = y, month = m, day = d,
                hour = h, minute = mi, second = s, microsecond = us, fold_field = f\<rparr>
      else Inl ValueError)"

text \<open>
  \<^verbatim>\<open>dt.replace(year=.., month=.., day=.., hour=.., minute=..)\<close>: the five given fields
  are replaced, second, microsecond and fold are kept, and the result goes through
  the constructor again, which validates every field.
\<close>

definition replace_ymdhm ::
  "datetime \<Rightarrow> int \<Rightarrow> int \<Rightarrow> int \<Rightarrow> int \<Rightarrow> int \<Rightarrow> error + datetime" where
  "replace_ymdhm dt y m d h mi =
     new_datetime y m d h mi (second dt) (microsecond dt) (fold_field dt)"

definition valid_datetime :: "datetime \<Rightarrow> bool" where
  "valid_datetime dt \<longleftrightarrow>
     check_date_fields (year dt) (month dt) (day dt) \<and>
     check_time_fields (hour dt) (minute dt) (second dt) (microsecond dt) (fold_field dt)"

text \<open>
  What the code reads from outside: the random generator (the raw draws still to
  come, so that a property proved for every \<open>draws\<close> holds whatever the generator
  returns), the wall clock (the successive readings of \<^verbatim>\<open>datetime.now()\<close>) and the
  host's time zone: the offset of its local time from UTC, in seconds, at each POSIX
  instant (what \<^verbatim>\<open>time.localtime\<close> applies, and through it \<^verbatim>\<open>timestamp()\<close> of a
  naive datetime).
\<close>

record env =
  draws :: "nat \<Rightarrow> nat"
  clock :: "nat \<Rightarrow> datetime"
  utcoffset :: "int \<Rightarrow> int"

type_synonym 'a action = "env \<Rightarrow> error + ('a \<times> env)"

definition return :: "'a \<Rightarrow> 'a action" where
  "return x w = Inr (x, w)"

definition raise :: "error \<Rightarrow> 'a action" where
  "raise e w = Inl e"

definition bind :: "'a action \<Rightarrow> ('a \<Rightarrow> 'b action) \<Rightarrow> 'b action" where
  "bind m f w = (case m w of Inl e \<Rightarrow> Inl e | Inr (x, w') \<Rightarrow> f x w')"

definition lift :: "error + 'a \<Rightarrow> 'a action" where
  "lift r w = (case r of Inl e \<Rightarrow> Inl e | Inr x \<Rightarrow> Inr (x, w))"

definition now :: "datetime action" where
  "now w = Inr (clock w 0, w\<lparr>clock := \<lambda>i. clock w (Suc i)\<rparr>)"

definition get_utcoffset :: "(int \<Rightarrow> int) action" where
  "get_utcoffset w = Inr (utcoffset w, w)"

section \<open>The \<^verbatim>\<open>random\<close> module\<close>

text \<open>\<^verbatim>\<open>_randbelow(n)\<close> for \<open>n > 0\<close>: a number below \<open>n\<close>, consuming one raw draw.\<close>

definition randbelow :: "nat \<Rightarrow> nat action" where
  "randbelow n w = Inr (draws w 0 mod n, w\<lparr>draws := \<lambda>i. draws w (Suc i)\<rparr>)"

text \<open>\<^verbatim>\<open>random.randint(a, b)\<close>: \<^verbatim>\<open>ValueError\<close> on an empty range.\<close>

definition randint :: "int \<Rightarrow> int \<Rightarrow> int action" where
  "randint a b =
     (if b < a then raise ValueError
      else bind (randbelow (nat (b - a + 1))) (\<lambda>r. return (a + int r)))"

text \<open>\<^verbatim>\<open>random.choice(seq)\<close>: \<^verbatim>\<open>IndexError\<close> on an empty sequence.\<close>

definition choice :: "'a list \<Rightarrow> 'a action" where
  "choice seq =
     (if seq = [] then raise IndexError
      else bind (randbelow (length seq)) (\<lambda>j. return (seq ! j)))"

text \<open>\<^verbatim>\<open>random.choices(population, k=k)\<close>: \<open>k\<close> picks with replacement.\<close>

fun choices :: "'a list \<Rightarrow> nat \<Rightarrow> 'a list action" where
  "choices population 0 = return []"
| "choices population (Suc k) =
     bind (choice population) (\<lambda>x.
     bind (choices population k) (\<lambda>xs. return (x # xs)))"

text \<open>
  \<^verbatim>\<open>random.sample(population, k)\<close> as CPython runs it on a population of at most 21
  elements (both vocabularies of this program are smaller): a copy \<open>pool\<close> of the
  population; at step \<open>i\<close> an index \<open>j\<close> below \<open>n - i\<close> is drawn, \<open>pool[j]\<close> is
  selected and the last live element \<open>pool[n - i - 1]\<close> moves into the vacancy.
\<close>

fun sample_loop :: "'a list \<Rightarrow> nat \<Rightarrow> nat \<Rightarrow> 'a list action" where
  "sample_loop pool m 0 = return []"
| "sample_loop pool m (Suc k) =
     bind (randbelow m) (\<lambda>j.
     bind (sample_loop (pool[j := pool ! (m - 1)]) (m - 1) k) (\<lambda>rest.
     return (pool ! j # rest)))"

definition sample :: "'a list \<Rightarrow> int \<Rightarrow> 'a list action" where
  "sample population k =
     (if \<not> (0 \<le> k \<and> k \<le> int (length population)) then raise ValueError
      else sample_loop population (length population) (nat k))"

text \<open>
  \<^verbatim>\<open>round(random.uniform(a, b), 2)\<close>. Floating point is not modelled: a value with two
  decimals is the integer number of its hundredths, and the rounded uniform draw is
  some number of hundredths between the two bounds (given in hundredths).
\<close>

type_synonym hundredths = int

definition uniform_round2 :: "hundredths \<Rightarrow> hundredths \<Rightarrow> hundredths action" where
  "uniform_round2 a b = bind (randbelow (nat (b - a + 1))) (\<lambda>r. return (a + int r))"

section \<open>Text: numbers, calendar arithmetic and the date renderings\<close>

definition digit_char :: "nat \<Rightarrow> char" where
  "digit_char d = ''0123456789'' ! d"

text \<open>\<^verbatim>\<open>str(n)\<close> for a natural number.\<close>

fun str_nat :: "nat \<Rightarrow> string" where
  "str_nat n = (if n < 10 then [digit_char n] else str_nat (n div 10) @ [digit_char (n mod 10)])"

declare str_nat.simps [simp del]

definition str_int :: "int \<Rightarrow> string" where
  "str_int i = (if i < 0 then CHR ''-'' # str_nat (nat (- i)) else str_nat (nat i))"

definition zfill :: "nat \<Rightarrow> string \<Rightarrow> string" where
  "zfill w s = replicate (w - length s) (CHR ''0'') @ s"

text \<open>The C format \<^verbatim>\<open>%0wd\<close>: zero padding to width \<open>w\<close>, the sign counted in the width.\<close>

definition fmt_d :: "nat \<Rightarrow> int \<Rightarrow> string" where
  "fmt_d w i =
     (if i < 0 then CHR ''-'' # zfill (w - 1) (str_nat (nat (- i)))
      else zfill w (str_nat (nat i)))"

definition days_before_year :: "int \<Rightarrow> int" where
  "days_before_year y =
     (let y1 = y - 1 in y1 * 365 + y1 div 4 - y1 div 100 + y1 div 400)"

definition DAYS_BEFORE_MONTH :: "int list" where
  "DAYS_BEFORE_MONTH = [0, 31, 59, 90, 120, 151, 181, 212, 243, 273, 304, 334]"

definition days_before_month :: "int \<Rightarrow> int \<Rightarrow> int" where
  "days_before_month y m =
     DAYS_BEFORE_MONTH ! nat (m - 1) + (if 2 < m \<and> is_leap y then 1 else 0)"

definition ymd2ord :: "int \<Rightarrow> int \<Rightarrow> int \<Rightarrow> int" where
  "ymd2ord y m d = days_before_year y + days_before_month y m + d"

definition toordinal :: "'a date_scheme \<Rightarrow> int" where
  "toordinal d = ymd2ord (year d) (month d) (day d)"

text \<open>Monday is 0.\<close>

definition weekday :: "'a date_scheme \<Rightarrow> int" where
  "weekday d = (toordinal d + 6) mod 7"

definition month_names :: "string list" where
  "month_names = [''January'', ''February'', ''March'', ''April'', ''May'', ''June'', ''July'',
     ''August'', ''September'', ''October'', ''November'', ''December'']"

definition day_abbrs :: "string list" where
  "day_abbrs = [''Mon'', ''Tue'', ''Wed'', ''Thu'', ''Fri'', ''Sat'', ''Sun'']"

text \<open>
  \<^verbatim>\<open>date.isoformat()\<close> is \<^verbatim>\<open>"%04d-%02d-%02d" % (year, month, day)\<close>;
  \<^verbatim>\<open>datetime.isoformat()\<close> adds \<^verbatim>\<open>T%02d:%02d:%02d\<close> and, only when the
  microsecond is not zero, \<^verbatim>\<open>.%06d\<close>.
\<close>

definition date_isoformat :: "'a date_scheme \<Rightarrow> string" where
  "date_isoformat d = fmt_d 4 (year d) @ ''-'' @ fmt_d 2 (month d) @ ''-'' @ fmt_d 2 (day d)"

definition datetime_isoformat :: "datetime \<Rightarrow> string" where
  "datetime_isoformat dt =
     date_isoformat dt @ ''T'' @
     fmt_d 2 (hour dt) @ '':'' @ fmt_d 2 (minute dt) @ '':'' @ fmt_d 2 (second dt) @
     (if microsecond dt \<noteq> 0 then ''.'' @ fmt_d 6 (microsecond dt) else [])"

text \<open>
  The four \<^verbatim>\<open>strftime\<close> formats of the program, in the C locale: \<^verbatim>\<open>%m\<close>, \<^verbatim>\<open>%d\<close>,
  \<^verbatim>\<open>%M\<close> are two digits, \<^verbatim>\<open>%Y\<close> is the year in four, \<^verbatim>\<open>%B\<close> the month's name,
  \<^verbatim>\<open>%b\<close> and \<^verbatim>\<open>%a\<close> the three-letter month and weekday, \<^verbatim>\<open>%I\<close> the hour on the
  12-hour clock in two digits, \<^verbatim>\<open>%p\<close> AM or PM.
\<close>

definition strftime_us :: "'a date_scheme \<Rightarrow> string" where
  "strftime_us d = fmt_d 2 (month d) @ ''/'' @ fmt_d 2 (day d) @ ''/'' @ fmt_d 4 (year d)"

definition strftime_eu :: "'a date_scheme \<Rightarrow> string" where
  "strftime_eu d = fmt_d 2 (day d) @ ''/'' @ fmt_d 2 (month d) @ ''/'' @ fmt_d 4 (year d)"

definition strftime_long :: "'a date_scheme \<Rightarrow> string" where
  "strftime_long d =
     month_names ! nat (month d - 1) @ '' '' @ fmt_d 2 (day d) @ '', '' @ fmt_d 4 (year d)"

definition hour12 :: "int \<Rightarrow> int" where
  "hour12 h = (if h mod 12 = 0 then 12 else h mod 12)"

definition strftime_readable :: "datetime \<Rightarrow> string" where
  "strftime_readable dt =
     day_abbrs ! nat (weekday dt) @ '', '' @
     take 3 (month_names ! nat (month dt - 1)) @ '' '' @ fmt_d 2 (day dt) @ '' '' @
     fmt_d 4 (year dt) @ '' '' @ fmt_d 2 (hour12 (hour dt)) @ '':'' @ fmt_d 2 (minute dt) @
     '' '' @ (if hour dt < 12 then ''AM'' else ''PM'')"

text \<open>
  \<^verbatim>\<open>int(dt.timestamp())\<close> of a naive datetime, as CPython computes it. The wall-clock
  seconds since 1970-01-01 are \<open>t = local_seconds dt\<close>. \<open>local_of_posix\<close> is the helper
  \<^verbatim>\<open>local(u)\<close>: the wall-clock seconds that the host's \<^verbatim>\<open>localtime\<close> shows at the
  POSIX instant \<open>u\<close>. \<open>mktime\<close> solves \<open>t = local(u)\<close> for \<open>u\<close>: it tries the offset
  \<open>a\<close> in force at \<open>t\<close> and, where that fails or where a second solution may exist,
  the offset \<open>b\<close> found a day earlier (fold 0) or later (fold 1) or at the first
  guess; in a gap, where no \<open>u\<close> solves the equation, it answers with the later of
  its two guesses for fold 0 and the earlier for fold 1. The timestamp is
  \<open>u + microsecond / 10^6\<close> and \<^verbatim>\<open>int\<close> truncates it towards zero. (The sum is taken
  exactly; the double nearest to it is below \<open>u + 1\<close> as long as \<open>u\<close> is below
  \<open>2^31\<close>, which the years 2020..2024 are.)
\<close>

definition local_seconds :: "datetime \<Rightarrow> int" where
  "local_seconds dt =
     (toordinal dt - ymd2ord 1970 1 1) * 86400 + hour dt * 3600 + minute dt * 60 + second dt"

definition local_of_posix :: "(int \<Rightarrow> int) \<Rightarrow> int \<Rightarrow> int" where
  "local_of_posix utcoff u = u + utcoff u"

definition max_fold_seconds :: int where
  "max_fold_seconds = 24 * 3600"

definition mktime :: "(int \<Rightarrow> int) \<Rightarrow> int \<Rightarrow> int \<Rightarrow> int" where
  "mktime utcoff t f =
     (let a = local_of_posix utcoff t - t;
          u1 = t - a;
          t1 = local_of_posix utcoff u1;
          b = (if t1 = t
               then (let u2 = u1 + (if f = 0 then - max_fold_seconds else max_fold_seconds)
                     in local_of_posix utcoff u2 - u2)
               else t1 - u1)
      in if t1 = t \<and> a = b then u1
         else (let u2 = t - b;
                   t2 = local_of_posix utcoff u2
               in if t2 = t then u2
                  else if t1 = t then u1
                  else if f = 0 then max u1 u2 else min u1 u2))"

definition int_timestamp :: "(int \<Rightarrow> int) \<Rightarrow> datetime \<Rightarrow> int" where
  "int_timestamp utcoff dt =
     (let u = mktime utcoff (local_seconds dt) (fold_field dt)
      in if u < 0 \<and> 0 < microsecond dt then u + 1 else u)"

section \<open>The record synthesizers\<close>

text \<open>
  The pydantic models. A field whose name is taken in HOL carries the suffix
  \<open>_field\<close>; the fields that \<^verbatim>\<open>DataObjectWithDifferentDates\<close> shares with
  \<^verbatim>\<open>DataObject\<close> carry the prefix \<open>dd_\<close>. The metadata dictionary has the same six
  keys at every construction and is a record of them.
\<close>

record Metadata =
  department :: string
  location :: string
  experience_years :: int
  skills :: "string list"
  certification :: bool
  last_login :: string

record DataObject =
  id_field :: int
  uuid :: string
  name :: string
  email :: string
  age :: int
  height :: hundredths
  weight :: hundredths
  is_active :: bool
  balance :: hundredths
  birth_date :: string
  created_at :: string
  tags :: "string list"
  metadata :: Metadata
  score :: "hundredths option"
  description :: "string option"

record DataObjectWithDifferentDates =
  dd_id :: int
  dd_uuid :: string
  dd_name :: string
  dd_email :: string
  dd_age :: int
  dd_height :: hundredths
  dd_weight :: hundredths
  dd_is_active :: bool
  dd_balance :: hundredths
  birth_date_iso :: string
  birth_date_us :: string
  birth_date_eu :: string
  birth_date_long :: string
  created_at_iso :: string
  created_at_timestamp :: int
  created_at_readable :: string
  dd_tags :: "string list"
  dd_metadata :: Metadata
  dd_score :: "hundredths option"
  dd_description :: "string option"

text \<open>\<^verbatim>\<open>PaginatedResponse\<close> and \<^verbatim>\<open>PaginatedResponseWithDifferentDates\<close>.\<close>

record 'a PaginatedResponse =
  data :: "'a list"
  total_field :: int
  page :: int
  page_size :: int
  total_pages :: int
  has_next :: bool
  has_previous :: bool

definition ascii_lowercase :: string where
  "ascii_lowercase = ''abcdefghijklmnopqrstuvwxyz''"

definition ascii_uppercase :: string where
  "ascii_uppercase = ''ABCDEFGHIJKLMNOPQRSTUVWXYZ''"

definition ascii_letters :: string where
  "ascii_letters = ascii_lowercase @ ascii_uppercase"

definition digits :: string where
  "digits = ''0123456789''"

fun index_of :: "'a \<Rightarrow> 'a list \<Rightarrow> nat option" where
  "index_of x [] = None"
| "index_of x (y # ys) =
     (if x = y then Some 0 else map_option Suc (index_of x ys))"

text \<open>\<^verbatim>\<open>str.lower()\<close> on ASCII text.\<close>

definition lower :: "string \<Rightarrow> string" where
  "lower s =
     map (\<lambda>c. case index_of c ascii_uppercase of
                 Some i \<Rightarrow> ascii_lowercase ! i | None \<Rightarrow> c) s"

text \<open>
  \<^verbatim>\<open>str(uuid.uuid4())\<close>: 128 random bits with the version nibble set to 4 and the
  variant bits to binary 10, as 32 hexadecimal digits in groups of 8-4-4-4-12. The
  bits come from the operating system in the source; here they are drawn from the
  same sequence of raw draws.
\<close>

definition uuid4 :: "string action" where
  "uuid4 =
     bind (choices [0..<16] 32) (\<lambda>ns.
       let ns' = ns[12 := 4, 16 := 8 + (ns ! 16) mod 4];
           h = map (\<lambda>n. ''0123456789abcdef'' ! n) ns'
       in return (take 8 h @ ''-'' @ take 4 (drop 8 h) @ ''-'' @ take 4 (drop 12 h) @ ''-'' @
                  take 4 (drop 16 h) @ ''-'' @ drop 20 h))"

definition generate_random_string :: "nat \<Rightarrow> string action" where
  "generate_random_string len = choices (ascii_letters @ digits) len"

definition generate_random_email :: "string action" where
  "generate_random_email =
     (let domains = [''gmail.com'', ''yahoo.com'', ''hotmail.com'', ''example.com'', ''test.org'']
      in bind (generate_random_string 8) (\<lambda>s.
         let username = lower s
         in bind (choice domains) (\<lambda>domain.
            return (username @ ''@'' @ domain))))"

definition all_tags :: "string list" where
  "all_tags = [''python'', ''javascript'', ''api'', ''web'', ''mobile'', ''data'', ''ai'', ''ml'',
               ''backend'', ''frontend'', ''database'', ''cloud'', ''devops'', ''security'']"

definition generate_random_tags :: "string list action" where
  "generate_random_tags =
     bind (randint 1 5) (\<lambda>num_tags. sample all_tags num_tags)"

definition all_skills :: "string list" where
  "all_skills = [''Python'', ''Java'', ''React'', ''Node.js'', ''SQL'', ''Docker'']"

text \<open>
  The dictionary display evaluates its values in order; in the \<^verbatim>\<open>random.sample\<close> call
  the population is written before the \<^verbatim>\<open>randint\<close> that gives the size, which is
  drawn before the sampling starts.
\<close>

definition generate_random_metadata :: "Metadata action" where
  "generate_random_metadata =
     bind (choice [''Engineering'', ''Marketing'', ''Sales'', ''HR'', ''Finance'']) (\<lambda>dep.
     bind (choice [''New York'', ''San Francisco'', ''London'', ''Tokyo'', ''Berlin'']) (\<lambda>loc.
     bind (randint 1 20) (\<lambda>years.
     bind (randint 2 4) (\<lambda>k.
     bind (sample all_skills k) (\<lambda>sk.
     bind (choice [True, False]) (\<lambda>cert.
     bind now (\<lambda>t.
     return \<lparr>department = dep, location = loc, experience_years = years, skills = sk,
             certification = cert, last_login = datetime_isoformat t\<rparr>)))))))"

text \<open>
  The optional fields: \<^verbatim>\<open>x if random.choice([True, False]) else None\<close> evaluates the
  condition first and the value only when the condition holds.
\<close>

definition optional_score :: "hundredths option action" where
  "optional_score =
     bind (choice [True, False]) (\<lambda>c.
       if c then bind (uniform_round2 0 10000) (\<lambda>x. return (Some x)) else return None)"

definition optional_description :: "int \<Rightarrow> string option action" where
  "optional_description i =
     bind (choice [True, False]) (\<lambda>c.
       return (if c then Some (''This is a sample description for user '' @ str_int i)
               else None))"

definition generate_data_object :: "int \<Rightarrow> DataObject action" where
  "generate_data_object i =
     bind uuid4 (\<lambda>v_uuid.
     bind (generate_random_string 6) (\<lambda>s.
     bind generate_random_email (\<lambda>v_email.
     bind (randint 18 80) (\<lambda>v_age.
     bind (uniform_round2 15000 20000) (\<lambda>v_height.
     bind (uniform_round2 4500 12000) (\<lambda>v_weight.
     bind (choice [True, False]) (\<lambda>v_is_active.
     bind (uniform_round2 0 10000000) (\<lambda>v_balance.
     bind (randint 1940 2005) (\<lambda>y.
     bind (randint 1 12) (\<lambda>m.
     bind (randint 1 28) (\<lambda>d.
     bind (lift (new_date y m d)) (\<lambda>bd.
     bind now (\<lambda>t.
     bind generate_random_tags (\<lambda>v_tags.
     bind generate_random_metadata (\<lambda>v_metadata.
     bind optional_score (\<lambda>v_score.
     bind (optional_description i) (\<lambda>v_description.
     return \<lparr>id_field = i, uuid = v_uuid, name = ''User '' @ s, email = v_email,
             age = v_age, height = v_height, weight = v_weight, is_active = v_is_active,
             balance = v_balance, birth_date = date_isoformat bd,
             created_at = datetime_isoformat t, tags = v_tags, metadata = v_metadata,
             score = v_score, description = v_description\<rparr>)))))))))))))))))"

definition generate_data_object_with_different_dates ::
  "int \<Rightarrow> DataObjectWithDifferentDates action" where
  "generate_data_object_with_different_dates i =
     bind (randint 1940 2005) (\<lambda>y.
     bind (randint 1 12) (\<lambda>m.
     bind (randint 1 28) (\<lambda>d.
     bind (lift (new_date y m d)) (\<lambda>birth_date_obj.
     bind now (\<lambda>t.
     bind (randint 2020 2024) (\<lambda>cy.
     bind (randint 1 12) (\<lambda>cm.
     bind (randint 1 28) (\<lambda>cd.
     bind (randint 0 23) (\<lambda>ch.
     bind (randint 0 59) (\<lambda>cmi.
     bind (lift (replace_ymdhm t cy cm cd ch cmi)) (\<lambda>created_datetime.
     bind uuid4 (\<lambda>v_uuid.
     bind (generate_random_string 6) (\<lambda>s.
     bind generate_random_email (\<lambda>v_email.
     bind (randint 18 80) (\<lambda>v_age.
     bind (uniform_round2 15000 20000) (\<lambda>v_height.
     bind (uniform_round2 4500 12000) (\<lambda>v_weight.
     bind (choice [True, False]) (\<lambda>v_is_active.
     bind (uniform_round2 0 10000000) (\<lambda>v_balance.
     bind get_utcoffset (\<lambda>tz.
     bind generate_random_tags (\<lambda>v_tags.
     bind generate_random_metadata (\<lambda>v_metadata.
     bind optional_score (\<lambda>v_score.
     bind (optional_description i) (\<lambda>v_description.
     return \<lparr>dd_id = i, dd_uuid = v_uuid, dd_name = ''User '' @ s, dd_email = v_email,
             dd_age = v_age, dd_height = v_height, dd_weight = v_weight,
             dd_is_active = v_is_active, dd_balance = v_balance,
             birth_date_iso = date_isoformat birth_date_obj,
             birth_date_us = strftime_us birth_date_obj,
             birth_date_eu = strftime_eu birth_date_obj,
             birth_date_long = strftime_long birth_date_obj,
             created_at_iso = datetime_isoformat created_datetime,
             created_at_timestamp = int_timestamp tz created_datetime,
             created_at_readable = strftime_readable created_datetime,
             dd_tags = v_tags, dd_metadata = v_metadata,
             dd_score = v_score, dd_description = v_description\<rparr>))))))))))))))))))))))))"

section \<open>The paginated endpoints\<close>

text \<open>
  A query parameter declared \<^verbatim>\<open>Query(default, ge=.., le=..)\<close>: an absent parameter
  takes the default; a given one is checked against the declared bounds, and a
  violation ends the request with the validation error before the handler's body
  runs.
\<close>

definition query_int :: "int \<Rightarrow> int option \<Rightarrow> int option \<Rightarrow> int option \<Rightarrow> error + int" where
  "query_int dflt ge le q =
     (case q of
        None \<Rightarrow> Inr dflt
      | Some x \<Rightarrow>
          if (case ge of None \<Rightarrow> True | Some a \<Rightarrow> a \<le> x) \<and>
             (case le of None \<Rightarrow> True | Some b \<Rightarrow> x \<le> b)
          then Inr x else Inl RequestValidationError)"

text \<open>Floor division \<^verbatim>\<open>a // b\<close>.\<close>

definition floordiv :: "int \<Rightarrow> int \<Rightarrow> error + int" where
  "floordiv a b = (if b = 0 then Inl ZeroDivisionError else Inr (a div b))"

definition py_range :: "int \<Rightarrow> int \<Rightarrow> int list" where
  "py_range a b = [a..b - 1]"

text \<open>\<^verbatim>\<open>for i in ...: data.append(f(i))\<close>.\<close>

fun for_append :: "(int \<Rightarrow> 'a action) \<Rightarrow> int list \<Rightarrow> 'a list \<Rightarrow> 'a list action" where
  "for_append f [] acc = return acc"
| "for_append f (i # rest) acc = bind (f i) (\<lambda>x. for_append f rest (acc @ [x]))"

text \<open>
  The body that both handlers share word for word, with the synthesizer they call as
  a parameter.
\<close>

definition paginate ::
  "(int \<Rightarrow> 'a action) \<Rightarrow> int \<Rightarrow> int \<Rightarrow> int \<Rightarrow> 'a PaginatedResponse action" where
  "paginate generate pg psize total_records =
     (let total_items = total_records
      in bind (lift (floordiv (total_items + psize - 1) psize)) (\<lambda>n_pages.
         let start_index = (pg - 1) * psize;
             end_index = min (start_index + psize) total_items
         in bind (for_append (\<lambda>i. generate (i + 1)) (py_range start_index end_index) [])
              (\<lambda>items.
            return \<lparr>data = items, total_field = total_items, page = pg, page_size = psize,
                    total_pages = n_pages, has_next = (pg < n_pages),
                    has_previous = (1 < pg)\<rparr>)))"

definition query_page :: "int option \<Rightarrow> error + int" where
  "query_page = query_int 1 (Some 1) None"

definition query_page_size :: "int option \<Rightarrow> error + int" where
  "query_page_size = query_int 10 (Some 1) (Some 100)"

definition query_total_records :: "int option \<Rightarrow> error + int" where
  "query_total_records = query_int 1000 (Some 1) (Some 10000)"

definition get_data ::
  "int option \<Rightarrow> int option \<Rightarrow> int option \<Rightarrow> DataObject PaginatedResponse action" where
  "get_data q_page q_page_size q_total_records =
     bind (lift (query_page q_page)) (\<lambda>pg.
     bind (lift (query_page_size q_page_size)) (\<lambda>psize.
     bind (lift (query_total_records q_total_records)) (\<lambda>total_records.
     paginate generate_data_object pg psize total_records)))"

definition get_data_with_date_formats ::
  "int option \<Rightarrow> int option \<Rightarrow> int option
   \<Rightarrow> DataObjectWithDifferentDates PaginatedResponse action" where
  "get_data_with_date_formats q_page q_page_size q_total_records =
     bind (lift (query_page q_page)) (\<lambda>pg.
     bind (lift (query_page_size q_page_size)) (\<lambda>psize.
     bind (lift (query_total_records q_total_records)) (\<lambda>total_records.
     paginate generate_data_object_with_different_dates pg psize total_records)))"

section \<open>The schema endpoint and the JSON form of a record\<close>

datatype json =
    JNull
  | JBool bool
  | JInt int
  | JNumber hundredths
  | JString string
  | JArray "json list"
  | JObject "(string \<times> json) list"

text \<open>
  The response model serialises a record field by field, in the order of declaration,
  under the field's name; \<^verbatim>\<open>None\<close> becomes \<^verbatim>\<open>null\<close>.
\<close>

definition metadata_json :: "Metadata \<Rightarrow> json" where
  "metadata_json md = JObject
     [(''department'', JString (department md)),
      (''location'', JString (location md)),
      (''experience_years'', JInt (experience_years md)),
      (''skills'', JArray (map JString (skills md))),
      (''certification'', JBool (certification md)),
      (''last_login'', JString (last_login md))]"

definition data_object_json :: "DataObject \<Rightarrow> json" where
  "data_object_json r = JObject
     [(''id'', JInt (id_field r)),
      (''uuid'', JString (uuid r)),
      (''name'', JString (name r)),
      (''email'', JString (email r)),
      (''age'', JInt (age r)),
      (''height'', JNumber (height r)),
      (''weight'', JNumber (weight r)),
      (''is_active'', JBool (is_active r)),
      (''balance'', JNumber (balance r)),
      (''birth_date'', JString (birth_date r)),
      (''created_at'', JString (created_at r)),
      (''tags'', JArray (map JString (tags r))),
      (''metadata'', metadata_json (metadata r)),
      (''score'', case score r of None \<Rightarrow> JNull | Some x \<Rightarrow> JNumber x),
      (''description'', case description r of None \<Rightarrow> JNull | Some x \<Rightarrow> JString x)]"

definition json_field :: "string \<Rightarrow> json \<Rightarrow> json option" where
  "json_field k v = (case v of JObject kvs \<Rightarrow> map_of kvs k | _ \<Rightarrow> None)"

text \<open>
  The document that \<^verbatim>\<open>get_schema\<close> returns, without its titles and descriptions: per
  property the \<^verbatim>\<open>type\<close> (one name or a list of names), and where given the
  \<^verbatim>\<open>format\<close>, \<^verbatim>\<open>minimum\<close>, \<^verbatim>\<open>maximum\<close> and the \<^verbatim>\<open>type\<close> of the \<^verbatim>\<open>items\<close>.
\<close>

record property_schema =
  json_types :: "string list"
  json_format :: "string option"
  minimum :: "int option"
  maximum :: "int option"
  items_types :: "string list option"

record object_schema =
  properties :: "(string \<times> property_schema) list"
  required :: "string list"

definition property :: "string list \<Rightarrow> property_schema" where
  "property ts = \<lparr>json_types = ts, json_format = None, minimum = None, maximum = None,
              items_types = None\<rparr>"

definition get_schema :: object_schema where
  "get_schema =
     \<lparr>properties =
        [(''id'', property [''integer'']),
         (''uuid'', (property [''string''])\<lparr>json_format := Some ''uuid''\<rparr>),
         (''name'', property [''string'']),
         (''email'', (property [''string''])\<lparr>json_format := Some ''email''\<rparr>),
         (''age'', (property [''integer''])\<lparr>minimum := Some 0, maximum := Some 150\<rparr>),
         (''height'', property [''number'']),
         (''weight'', property [''number'']),
         (''is_active'', property [''boolean'']),
         (''balance'', property [''number'']),
         (''birth_date'', (property [''string''])\<lparr>json_format := Some ''date''\<rparr>),
         (''created_at'', (property [''string''])\<lparr>json_format := Some ''date-time''\<rparr>),
         (''tags'', (property [''array''])\<lparr>items_types := Some [''string'']\<rparr>),
         (''metadata'', property [''object'']),
         (''score'', property [''number'', ''null'']),
         (''description'', property [''string'', ''null''])],
      required =
        [''id'', ''uuid'', ''name'', ''email'', ''age'', ''height'', ''weight'', ''is_active'',
         ''balance'', ''birth_date'', ''created_at'', ''tags'', ''metadata'']\<rparr>"

text \<open>
  JSON Schema validation for the keywords the document uses: \<^verbatim>\<open>type\<close>, \<^verbatim>\<open>minimum\<close>
  and \<^verbatim>\<open>maximum\<close> (on numbers only), \<^verbatim>\<open>items\<close>, \<^verbatim>\<open>properties\<close> and \<^verbatim>\<open>required\<close>;
  \<^verbatim>\<open>format\<close> is an annotation.
\<close>

definition has_type :: "string \<Rightarrow> json \<Rightarrow> bool" where
  "has_type t v =
     (case v of
        JNull \<Rightarrow> t = ''null''
      | JBool _ \<Rightarrow> t = ''boolean''
      | JInt _ \<Rightarrow> t = ''integer'' \<or> t = ''number''
      | JNumber _ \<Rightarrow> t = ''number''
      | JString _ \<Rightarrow> t = ''string''
      | JArray _ \<Rightarrow> t = ''array''
      | JObject _ \<Rightarrow> t = ''object'')"

definition above_minimum :: "int option \<Rightarrow> hundredths \<Rightarrow> bool" where
  "above_minimum lo x = (case lo of None \<Rightarrow> True | Some a \<Rightarrow> a * 100 \<le> x)"

definition below_maximum :: "int option \<Rightarrow> hundredths \<Rightarrow> bool" where
  "below_maximum hi x = (case hi of None \<Rightarrow> True | Some b \<Rightarrow> x \<le> b * 100)"

definition valid_property :: "property_schema \<Rightarrow> json \<Rightarrow> bool" where
  "valid_property ps v \<longleftrightarrow>
     list_ex (\<lambda>t. has_type t v) (json_types ps) \<and>
     (case v of
        JInt n \<Rightarrow> above_minimum (minimum ps) (n * 100) \<and> below_maximum (maximum ps) (n * 100)
      | JNumber x \<Rightarrow> above_minimum (minimum ps) x \<and> below_maximum (maximum ps) x
      | JArray xs \<Rightarrow>
          (case items_types ps of
             None \<Rightarrow> True
           | Some ts \<Rightarrow> list_all (\<lambda>x. list_ex (\<lambda>t. has_type t x) ts) xs)
      | _ \<Rightarrow> True)"

definition validates :: "object_schema \<Rightarrow> json \<Rightarrow> bool" where
  "validates sch v =
     (case v of
        JObject kvs \<Rightarrow>
          list_all (\<lambda>k. map_of kvs k \<noteq> None) (required sch) \<and>
          list_all (\<lambda>(k, x). case map_of (properties sch) k of
                               None \<Rightarrow> True
                             | Some ps \<Rightarrow> valid_property ps x) kvs
      | _ \<Rightarrow> False)"

section \<open>Decoding the date renderings\<close>

text \<open>
  What a client does with each rendering: the reader of the same format
  (\<^verbatim>\<open>date.fromisoformat\<close>, \<^verbatim>\<open>strptime\<close> with the format the field was written
  with, \<^verbatim>\<open>datetime.fromisoformat\<close>). A reader gives \<open>None\<close> on text that is not of
  its format or that names no calendar date. \<^verbatim>\<open>datetime.fromisoformat\<close> gives a
  datetime with fold 0, the text having no place for the fold.
\<close>

definition digit_val :: "char \<Rightarrow> nat option" where
  "digit_val c = index_of c digits"

fun parse_digits :: "string \<Rightarrow> nat \<Rightarrow> nat option" where
  "parse_digits [] acc = Some acc"
| "parse_digits (c # cs) acc =
     (case digit_val c of None \<Rightarrow> None | Some d \<Rightarrow> parse_digits cs (10 * acc + d))"

definition parse_nat :: "string \<Rightarrow> int option" where
  "parse_nat s = (if s = [] then None else map_option int (parse_digits s 0))"

definition to_date :: "int option \<Rightarrow> int option \<Rightarrow> int option \<Rightarrow> date option" where
  "to_date y m d =
     (case (y, m, d) of
        (Some y', Some m', Some d') \<Rightarrow>
          (case new_date y' m' d' of Inr x \<Rightarrow> Some x | Inl _ \<Rightarrow> None)
      | _ \<Rightarrow> None)"

definition date_fromisoformat :: "string \<Rightarrow> date option" where
  "date_fromisoformat s =
     (if length s = 10 \<and> s ! 4 = CHR ''-'' \<and> s ! 7 = CHR ''-''
      then to_date (parse_nat (take 4 s)) (parse_nat (take 2 (drop 5 s))) (parse_nat (drop 8 s))
      else None)"




definition datetime_fromisoformat :: "string \<Rightarrow> datetime option" where
  "datetime_fromisoformat s =
     (if (length s = 19 \<or> length s = 26 \<and> s ! 19 = CHR ''.'') \<and>
         s ! 10 = CHR ''T'' \<and> s ! 13 = CHR '':'' \<and> s ! 16 = CHR '':''
      then
        (case (date_fromisoformat (take 10 s), parse_nat (take 2 (drop 11 s)),
               parse_nat (take 2 (drop 14 s)), parse_nat (take 2 (drop 17 s)),
               if length s = 19 then Some 0 else parse_nat (drop 20 s)) of
           (Some d, Some h, Some mi, Some sec, Some us) \<Rightarrow>
             (case new_datetime (year d) (month d) (day d) h mi sec us 0 of
                Inr x \<Rightarrow> Some x | Inl _ \<Rightarrow> None)
         | _ \<Rightarrow> None)
      else None)"






section \<open>Specification vocabulary\<close>

text \<open>
  The wall clock is well formed when every reading is a datetime that Python could
  have constructed. An environment is frozen when its generator repeats one draw
  for ever and its clock one reading; an action that succeeds leaves a frozen
  environment as it found it. An action \<open>returns\<close> a result satisfying \<open>P\<close> from
  \<open>w\<close> when it raises nothing there, its result satisfies \<open>P\<close>, and the environment
  it leaves has the same time zone, a well-formed clock if \<open>w\<close> had one, and is \<open>w\<close>
  itself if \<open>w\<close> is frozen.
\<close>

definition clock_ok :: "env \<Rightarrow> bool" where
  "clock_ok w \<longleftrightarrow> (\<forall>i. valid_datetime (clock w i))"

definition frozen :: "env \<Rightarrow> bool" where
  "frozen w \<longleftrightarrow> (\<forall>i. draws w i = draws w 0) \<and> (\<forall>i. clock w i = clock w 0)"

definition host_kept :: "env \<Rightarrow> env \<Rightarrow> bool" where
  "host_kept w w' \<longleftrightarrow>
     utcoffset w' = utcoffset w \<and> (clock_ok w \<longrightarrow> clock_ok w') \<and>
     (frozen w \<longrightarrow> w' = w)"


definition returns :: "'a action \<Rightarrow> env \<Rightarrow> ('a \<Rightarrow> bool) \<Rightarrow> bool" where
  "returns m w P \<longleftrightarrow> (\<exists>x w'. m w = Inr (x, w') \<and> P x \<and> host_kept w w')"

text \<open>
  The part of a response that the pagination arithmetic decides: the six scalar
  fields of the envelope, the number of records and their identities in order
  (\<open>ident\<close> reads the identity of a record); for a failed request, the error.
\<close>

definition envelope_plan ::
  "('a \<Rightarrow> int) \<Rightarrow> 'a PaginatedResponse
   \<Rightarrow> int \<times> int \<times> int \<times> int \<times> bool \<times> bool \<times> nat \<times> int list" where
  "envelope_plan ident r =
     (total_field r, page r, page_size r, total_pages r, has_next r, has_previous r,
      length (data r), map ident (data r))"

definition plan_outcome ::
  "('a \<Rightarrow> int) \<Rightarrow> error + ('a PaginatedResponse \<times> env)
   \<Rightarrow> error + (int \<times> int \<times> int \<times> int \<times> bool \<times> bool \<times> nat \<times> int list)" where
  "plan_outcome ident res =
     (case res of Inl e \<Rightarrow> Inl e | Inr (r, w') \<Rightarrow> Inr (envelope_plan ident r))"

text \<open>
  A host for running the model on concrete input: a frozen environment in UTC whose
  generator always draws 13 and whose clock always reads midnight of 2024-01-01.
\<close>

definition utc_host :: env where
  "utc_host =
     \<lparr>draws = (\<lambda>_. 13),
      clock = (\<lambda>_. \<lparr>year = 2024, month = 1, day = 1,
                    hour = 0, minute = 0, second = 0, microsecond = 0, fold_field = 0\<rparr>),
      utcoffset = (\<lambda>_. 0)\<rparr>"




section \<open>Rules for actions\<close>

lemma host_kept_refl: "host_kept w w"
  by (simp add: host_kept_def)

lemma host_kept_trans: "host_kept w w' \<Longrightarrow> host_kept w' w'' \<Longrightarrow> host_kept w w''"
  by (auto simp: host_kept_def)

lemma returnsI: "m w = Inr (x, w') \<Longrightarrow> P x \<Longrightarrow> host_kept w w' \<Longrightarrow> returns m w P"
  unfolding returns_def by blast

lemma returnsE:
  assumes "returns m w P"
  obtains x w' where "m w = Inr (x, w')" "P x" "host_kept w w'"
  using assms unfolding returns_def by blast

lemma returns_weaken: "returns m w P \<Longrightarrow> (\<And>x. P x \<Longrightarrow> Q x) \<Longrightarrow> returns m w Q"
  unfolding returns_def by blast

lemma returns_conj: "returns m w P \<Longrightarrow> returns m w Q \<Longrightarrow> returns m w (\<lambda>x. P x \<and> Q x)"
  unfolding returns_def by auto

lemma returns_return: "P x \<Longrightarrow> returns (return x) w P"
  by (simp add: returns_def return_def host_kept_refl)

lemma returns_bind:
  assumes "returns m w P"
    and "\<And>x w'. P x \<Longrightarrow> host_kept w w' \<Longrightarrow> returns (f x) w' Q"
  shows "returns (bind m f) w Q"
proof -
  from assms(1) obtain x w' where m: "m w = Inr (x, w')" "P x" "host_kept w w'"
    by (rule returnsE)
  from assms(2) [OF m(2,3)] obtain y w'' where f: "f x w' = Inr (y, w'')" "Q y" "host_kept w' w''"
    by (rule returnsE)
  have "bind m f w = Inr (y, w'')" by (simp add: bind_def m(1) f(1))
  then show ?thesis using f(2) host_kept_trans [OF m(3) f(3)] by (rule returnsI)
qed

lemma returns_lift: "r = Inr x \<Longrightarrow> P x \<Longrightarrow> returns (lift r) w P"
  by (simp add: returns_def lift_def host_kept_refl)

lemma host_kept_draws: "host_kept w (w\<lparr>draws := \<lambda>i. draws w (Suc i)\<rparr>)"
proof -
  have "frozen w \<Longrightarrow> (\<lambda>i. draws w (Suc i)) = draws w"
    by (rule ext) (metis frozen_def)
  then show ?thesis by (auto simp: host_kept_def clock_ok_def)
qed

lemma host_kept_clock: "host_kept w (w\<lparr>clock := \<lambda>i. clock w (Suc i)\<rparr>)"
proof -
  have "frozen w \<Longrightarrow> (\<lambda>i. clock w (Suc i)) = clock w"
    by (rule ext) (metis frozen_def)
  then show ?thesis by (auto simp: host_kept_def clock_ok_def)
qed

lemma returns_randbelow:
  "0 < n \<Longrightarrow> returns (randbelow n) w (\<lambda>r. r < n \<and> r = draws w 0 mod n)"
  by (simp add: returns_def randbelow_def host_kept_draws)

lemma returns_randint: "a \<le> b \<Longrightarrow> returns (randint a b) w (\<lambda>x. a \<le> x \<and> x \<le> b)"
  unfolding randint_def
  by (simp, rule returns_bind [OF returns_randbelow], simp, rule returns_return, linarith)

lemma returns_uniform_round2:
  "a \<le> b \<Longrightarrow> returns (uniform_round2 a b) w (\<lambda>x. a \<le> x \<and> x \<le> b)"
  unfolding uniform_round2_def
  by (rule returns_bind [OF returns_randbelow], simp, rule returns_return, linarith)

lemma returns_choice:
  "seq \<noteq> [] \<Longrightarrow>
   returns (choice seq) w (\<lambda>x. x \<in> set seq \<and> x = seq ! (draws w 0 mod length seq))"
  unfolding choice_def
  by (simp, rule returns_bind [OF returns_randbelow], simp, rule returns_return, simp)

lemma returns_coin:
  "returns (choice [True, False]) w (\<lambda>c. c \<longleftrightarrow> draws w 0 mod 2 = 0)"
proof (rule returns_weaken [OF returns_choice])
  show "[True, False] \<noteq> []" by simp
next
  fix x
  assume x: "x \<in> set [True, False] \<and> x = [True, False] ! (draws w 0 mod length [True, False])"
  have l: "length [True, False] = 2" by simp
  from x have v: "x = [True, False] ! (draws w 0 mod 2)" by (simp only: l)
  have "draws w 0 mod 2 = 0 \<or> draws w 0 mod 2 = 1" by arith
  then show "x \<longleftrightarrow> draws w 0 mod 2 = 0"
  proof
    assume z: "draws w 0 mod 2 = 0"
    show ?thesis unfolding v z by simp
  next
    assume z: "draws w 0 mod 2 = 1"
    show ?thesis unfolding v z by simp
  qed
qed

lemma returns_choices:
  "population \<noteq> [] \<Longrightarrow>
   returns (choices population k) w (\<lambda>xs. length xs = k \<and> set xs \<subseteq> set population)"
proof (induction k arbitrary: w)
  case 0
  show ?case by (simp, rule returns_return, simp)
next
  case (Suc k)
  show ?case
    apply simp
    apply (rule returns_bind [OF returns_choice [OF Suc.prems]])
    apply (rule returns_bind [OF Suc.IH [OF Suc.prems]])
    apply (rule returns_return)
    apply simp
    done
qed

lemma returns_now: "returns now w (\<lambda>t. clock_ok w \<longrightarrow> valid_datetime t)"
  by (simp add: returns_def now_def host_kept_clock) (simp add: clock_ok_def)

lemma returns_get_utcoffset:
  "returns get_utcoffset w (\<lambda>tz. tz = utcoffset w)"
  by (simp add: returns_def get_utcoffset_def host_kept_refl)

lemma returns_for_append:
  assumes "\<And>i w'. i \<in> set idxs \<Longrightarrow> host_kept w w' \<Longrightarrow> returns (f i) w' (P i)"
  shows "returns (for_append f idxs acc) w (\<lambda>xs. \<exists>ys. xs = acc @ ys \<and> list_all2 P idxs ys)"
  using assms
proof (induction idxs arbitrary: acc w)
  case Nil
  show ?case by (simp, rule returns_return, simp)
next
  case (Cons i rest)
  have step: "returns (f i) w (P i)"
    by (rule Cons.prems) (simp_all add: host_kept_refl)
  show ?case
  proof (simp, rule returns_bind [OF step])
    fix x w'
    assume x: "P i x" and k: "host_kept w w'"
    have "returns (for_append f rest (acc @ [x])) w'
            (\<lambda>xs. \<exists>ys. xs = (acc @ [x]) @ ys \<and> list_all2 P rest ys)"
    proof (rule Cons.IH)
      fix j w''
      assume "j \<in> set rest" "host_kept w' w''"
      then show "returns (f j) w'' (P j)"
        using Cons.prems [of j w''] host_kept_trans [OF k] by simp
    qed
    then show "returns (for_append f rest (acc @ [x])) w'
            (\<lambda>xs. \<exists>ys. xs = acc @ ys \<and> list_all2 P (i # rest) ys)"
    proof (rule returns_weaken)
      fix xs
      assume "\<exists>ys. xs = (acc @ [x]) @ ys \<and> list_all2 P rest ys"
      then obtain ys where "xs = acc @ (x # ys)" "list_all2 P rest ys" by auto
      with x show "\<exists>ys. xs = acc @ ys \<and> list_all2 P (i # rest) ys" by auto
    qed
  qed
qed

lemma returns_paginate:
  assumes ps: "0 < psize"
    and gen: "\<And>i w'. host_kept w w' \<Longrightarrow> returns (generate i) w' (P i)"
  shows "returns (paginate generate pg psize t) w
     (\<lambda>r. total_field r = t \<and> page r = pg \<and> page_size r = psize \<and>
          total_pages r = (t + psize - 1) div psize \<and>
          has_next r = (pg < total_pages r) \<and> has_previous r = (1 < pg) \<and>
          list_all2 (\<lambda>i x. P (i + 1) x)
            (py_range ((pg - 1) * psize) (min ((pg - 1) * psize + psize) t)) (data r))"
  unfolding paginate_def Let_def
  apply (rule returns_bind [where P = "\<lambda>n. n = (t + psize - 1) div psize"])
   apply (rule returns_lift [where x = "(t + psize - 1) div psize"])
  using ps apply (simp add: floordiv_def)
   apply simp
  apply (rule returns_bind [OF returns_for_append [where P = "\<lambda>i x. P (i + 1) x"]])
   apply (rule gen)
   apply (erule (1) host_kept_trans)
  apply (rule returns_return)
  apply auto
  done

section \<open>Sampling without replacement\<close>

lemma pool_step:
  assumes j: "j < m" and m: "m \<le> length pool" and d: "distinct (take m pool)"
  shows "distinct (take (m - 1) (pool[j := pool ! (m - 1)]))"
    and "set (take (m - 1) (pool[j := pool ! (m - 1)])) = set (take m pool) - {pool ! j}"
proof -
  obtain n where n: "m = Suc n" using j by (cases m) auto
  have len: "n < length pool" using m n by simp
  have tk: "take m pool = take n pool @ [pool ! n]"
    using len n by (simp add: take_Suc_conv_app_nth)
  have dn: "distinct (take n pool)" and notin: "pool ! n \<notin> set (take n pool)"
    using d tk by auto
  show "distinct (take (m - 1) (pool[j := pool ! (m - 1)]))"
  proof (cases "j = n")
    case True
    then show ?thesis using dn n by simp
  next
    case False
    then have jn: "j < n" using j n by simp
    have "take n (pool[j := pool ! n]) = (take n pool)[j := pool ! n]"
      by (simp add: take_update_swap)
    then show ?thesis using dn notin n by (simp add: distinct_list_update)
  qed
  show "set (take (m - 1) (pool[j := pool ! (m - 1)])) = set (take m pool) - {pool ! j}"
  proof (cases "j = n")
    case True
    then show ?thesis using tk notin n by auto
  next
    case False
    then have jn: "j < n" using j n by simp
    have e: "take n (pool[j := pool ! n]) = (take n pool)[j := pool ! n]"
      by (simp add: take_update_swap)
    have jl: "j < length (take n pool)" using jn len by simp
    have nj: "take n pool ! j = pool ! j" using jn by simp
    have "pool ! j \<in> set (take n pool)" using jl nj by (metis nth_mem)
    then have ne: "pool ! n \<noteq> pool ! j" using notin by auto
    have "set ((take n pool)[j := pool ! n]) = insert (pool ! n) (set (take n pool) - {pool ! j})"
      using set_update_distinct [OF dn jl] nj by simp
    then show ?thesis using e tk n ne by auto
  qed
qed

lemma returns_sample_loop:
  "k \<le> m \<Longrightarrow> m \<le> length pool \<Longrightarrow> distinct (take m pool) \<Longrightarrow>
   returns (sample_loop pool m k) w
     (\<lambda>xs. length xs = k \<and> distinct xs \<and> set xs \<subseteq> set (take m pool))"
proof (induction k arbitrary: pool m w)
  case 0
  show ?case by (simp, rule returns_return, simp)
next
  case (Suc k)
  have mpos: "0 < m" using Suc.prems(1) by simp
  show ?case
  proof (unfold sample_loop.simps, rule returns_bind [OF returns_randbelow [OF mpos]])
    fix j w'
    assume "j < m \<and> j = draws w 0 mod m"
    then have j: "j < m" ..
    let ?pool' = "pool[j := pool ! (m - 1)]"
    have d': "distinct (take (m - 1) ?pool')"
      and s': "set (take (m - 1) ?pool') = set (take m pool) - {pool ! j}"
      using pool_step [OF j Suc.prems(2,3)] by simp_all
    have jin: "pool ! j \<in> set (take m pool)"
      using j Suc.prems(2) by (metis length_take min.absorb2 nth_mem nth_take)
    have ih: "returns (sample_loop ?pool' (m - 1) k) w'
        (\<lambda>xs. length xs = k \<and> distinct xs \<and> set xs \<subseteq> set (take (m - 1) ?pool'))"
      using Suc.prems by (intro Suc.IH d') simp_all
    show "returns (bind (sample_loop ?pool' (m - 1) k) (\<lambda>rest. return (pool ! j # rest))) w'
        (\<lambda>xs. length xs = Suc k \<and> distinct xs \<and> set xs \<subseteq> set (take m pool))"
      apply (rule returns_bind [OF ih])
      apply (rule returns_return)
      using s' jin apply auto
      done
  qed
qed

lemma returns_sample:
  assumes "0 \<le> k" "k \<le> int (length population)" "distinct population"
  shows "returns (sample population k) w
     (\<lambda>xs. int (length xs) = k \<and> distinct xs \<and> set xs \<subseteq> set population)"
proof -
  have "returns (sample_loop population (length population) (nat k)) w
     (\<lambda>xs. length xs = nat k \<and> distinct xs \<and> set xs \<subseteq> set (take (length population) population))"
    using assms by (intro returns_sample_loop) simp_all
  then show ?thesis
    using assms unfolding sample_def by (auto elim!: returns_weaken)
qed

lemma returns_generate_random_tags:
  "returns generate_random_tags w
     (\<lambda>xs. 1 \<le> length xs \<and> length xs \<le> 5 \<and> distinct xs \<and> set xs \<subseteq> set all_tags)"
  unfolding generate_random_tags_def
  apply (rule returns_bind [OF returns_randint])
   apply simp
  apply (rule returns_weaken [OF returns_sample])
  apply (simp_all add: all_tags_def)
  done

lemma returns_generate_random_metadata:
  "returns generate_random_metadata w
     (\<lambda>md. 2 \<le> length (skills md) \<and> length (skills md) \<le> 4 \<and> distinct (skills md) \<and>
           set (skills md) \<subseteq> set all_skills)"
  unfolding generate_random_metadata_def
  apply (rule returns_bind [OF returns_choice], simp)
  apply (rule returns_bind [OF returns_choice], simp)
  apply (rule returns_bind [OF returns_randint], simp)
  apply (rule returns_bind [OF returns_randint], simp)
  apply (rule returns_bind [OF returns_sample])
     apply (simp_all add: all_skills_def) [3]
  apply (rule returns_bind [OF returns_choice], simp)
  apply (rule returns_bind [OF returns_now])
  apply (rule returns_return)
  apply (simp add: all_skills_def)
  done

section \<open>Reading back what the formatters write\<close>

lemma digit_val_digit_char: "d < 10 \<Longrightarrow> digit_val (digit_char d) = Some d"
proof -
  assume "d < 10"
  then have "d \<in> {0, 1, 2, 3, 4, 5, 6, 7, 8, 9}" by auto
  then show ?thesis
    by (auto simp: digit_val_def digit_char_def digits_def)
qed

lemma parse_digits_append:
  "parse_digits (xs @ ys) acc =
     (case parse_digits xs acc of None \<Rightarrow> None | Some a \<Rightarrow> parse_digits ys a)"
  by (induction xs arbitrary: acc) (auto split: option.splits)

lemma parse_digits_str_nat: "parse_digits (str_nat n) 0 = Some n"
proof (induction n rule: str_nat.induct)
  case (1 n)
  show ?case
  proof (cases "n < 10")
    case True
    then show ?thesis
      by (subst str_nat.simps) (simp add: digit_val_digit_char)
  next
    case False
    have "parse_digits (str_nat (n div 10)) 0 = Some (n div 10)"
      using 1 False by simp
    then show ?thesis
      using False
      by (subst str_nat.simps) (simp add: parse_digits_append digit_val_digit_char)
  qed
qed

lemma digit_val_zero: "digit_val (CHR ''0'') = Some 0"
  by (simp add: digit_val_def digits_def)

lemma parse_digits_zeros: "parse_digits (replicate k (CHR ''0'') @ s) 0 = parse_digits s 0"
  by (induction k) (simp_all add: digit_val_zero)

lemma str_nat_nonempty: "str_nat n \<noteq> []"
  by (subst str_nat.simps) simp

lemma parse_nat_fmt_d: "0 \<le> i \<Longrightarrow> parse_nat (fmt_d w i) = Some i"
  by (simp add: parse_nat_def fmt_d_def zfill_def parse_digits_zeros parse_digits_str_nat
      str_nat_nonempty)

lemma length_str_nat: "0 < w \<Longrightarrow> n < 10 ^ w \<Longrightarrow> length (str_nat n) \<le> w"
proof (induction w arbitrary: n)
  case 0
  then show ?case by simp
next
  case (Suc w)
  show ?case
  proof (cases "n < 10")
    case True
    then show ?thesis by (subst str_nat.simps) simp
  next
    case False
    then have w: "0 < w" using Suc.prems by (cases w) auto
    have "n div 10 < 10 ^ w" using Suc.prems(2) by (simp add: less_mult_imp_div_less mult.commute)
    then have "length (str_nat (n div 10)) \<le> w" using Suc.IH w by simp
    then show ?thesis using False by (subst str_nat.simps) simp
  qed
qed

lemma length_fmt_d: "0 < w \<Longrightarrow> 0 \<le> i \<Longrightarrow> i < 10 ^ w \<Longrightarrow> length (fmt_d w i) = w"
proof -
  assume w: "0 < w" and i: "0 \<le> i" "i < 10 ^ w"
  have "nat i < 10 ^ w" using i by (simp add: nat_less_iff)
  then have "length (str_nat (nat i)) \<le> w" using w by (rule length_str_nat [rotated])
  then show ?thesis using i by (simp add: fmt_d_def zfill_def)
qed

lemma length_fmt_d2: "0 \<le> i \<Longrightarrow> i \<le> 99 \<Longrightarrow> length (fmt_d 2 i) = 2"
  by (rule length_fmt_d) simp_all

lemma length_fmt_d4: "0 \<le> i \<Longrightarrow> i \<le> 9999 \<Longrightarrow> length (fmt_d 4 i) = 4"
  by (rule length_fmt_d) simp_all

lemma length_fmt_d6: "0 \<le> i \<Longrightarrow> i \<le> 999999 \<Longrightarrow> length (fmt_d 6 i) = 6"
  by (rule length_fmt_d) simp_all

lemma month_cases:
  "1 \<le> m \<Longrightarrow> m \<le> 12 \<Longrightarrow> m \<in> {1, 2, 3, 4, 5, 6, 7, 8, 9, 10, 11, 12::int}"
  by simp presburger

lemma days_in_month_le: "1 \<le> m \<Longrightarrow> m \<le> 12 \<Longrightarrow> days_in_month y m \<le> 31"
  using month_cases [of m] by (auto simp: days_in_month_def DAYS_IN_MONTH_def)

lemma to_date_Some:
  "check_date_fields y m d \<Longrightarrow>
   to_date (Some y) (Some m) (Some d) = Some \<lparr>year = y, month = m, day = d\<rparr>"
  by (simp add: to_date_def new_date_def)

lemma iso_shape:
  assumes "length a = 4" "length b = 2" "length c = 2"
  shows "length (a @ ''-'' @ b @ ''-'' @ c) = 10"
    and "(a @ ''-'' @ b @ ''-'' @ c) ! 4 = CHR ''-''"
    and "(a @ ''-'' @ b @ ''-'' @ c) ! 7 = CHR ''-''"
    and "take 4 (a @ ''-'' @ b @ ''-'' @ c) = a"
    and "take 2 (drop 5 (a @ ''-'' @ b @ ''-'' @ c)) = b"
    and "drop 8 (a @ ''-'' @ b @ ''-'' @ c) = c"
  using assms by (simp_all add: nth_append)

lemma date_field_lengths:
  assumes "check_date_fields y m d"
  shows "length (fmt_d 4 y) = 4" "length (fmt_d 2 m) = 2" "length (fmt_d 2 d) = 2"
    and "parse_nat (fmt_d 4 y) = Some y" "parse_nat (fmt_d 2 m) = Some m"
    and "parse_nat (fmt_d 2 d) = Some d"
proof -
  have b: "1 \<le> y" "y \<le> 9999" "1 \<le> m" "m \<le> 12" "1 \<le> d" "d \<le> days_in_month y m"
    using assms by (simp_all add: check_date_fields_def)
  have d31: "d \<le> 31" using b(6) days_in_month_le [OF b(3,4), of y] by simp
  show "length (fmt_d 4 y) = 4" using b by (intro length_fmt_d4) simp_all
  show "length (fmt_d 2 m) = 2" using b by (intro length_fmt_d2) simp_all
  show "length (fmt_d 2 d) = 2" using b d31 by (intro length_fmt_d2) simp_all
  show "parse_nat (fmt_d 4 y) = Some y" using b by (intro parse_nat_fmt_d) simp
  show "parse_nat (fmt_d 2 m) = Some m" using b by (intro parse_nat_fmt_d) simp
  show "parse_nat (fmt_d 2 d) = Some d" using b by (intro parse_nat_fmt_d) simp
qed

lemma date_fromisoformat_isoformat:
  assumes "check_date_fields (year d) (month d) (day d)"
  shows "date_fromisoformat (date_isoformat d)
         = Some \<lparr>year = year d, month = month d, day = day d\<rparr>"
  unfolding date_fromisoformat_def date_isoformat_def
  by (simp only: iso_shape [OF date_field_lengths(1,2,3) [OF assms]]
      date_field_lengths(4,5,6) [OF assms] to_date_Some [OF assms]) simp









lemma length_date_isoformat:
  "check_date_fields (year d) (month d) (day d) \<Longrightarrow> length (date_isoformat d) = 10"
  by (simp add: date_isoformat_def date_field_lengths)

lemma dt_shape:
  assumes "length D = 10" "length h = 2" "length m = 2" "length s = 2"
  shows "length (D @ ''T'' @ h @ '':'' @ m @ '':'' @ s @ f) = 19 + length f"
    and "(D @ ''T'' @ h @ '':'' @ m @ '':'' @ s @ f) ! 10 = CHR ''T''"
    and "(D @ ''T'' @ h @ '':'' @ m @ '':'' @ s @ f) ! 13 = CHR '':''"
    and "(D @ ''T'' @ h @ '':'' @ m @ '':'' @ s @ f) ! 16 = CHR '':''"
    and "take 10 (D @ ''T'' @ h @ '':'' @ m @ '':'' @ s @ f) = D"
    and "take 2 (drop 11 (D @ ''T'' @ h @ '':'' @ m @ '':'' @ s @ f)) = h"
    and "take 2 (drop 14 (D @ ''T'' @ h @ '':'' @ m @ '':'' @ s @ f)) = m"
    and "take 2 (drop 17 (D @ ''T'' @ h @ '':'' @ m @ '':'' @ s @ f)) = s"
    and "drop 19 (D @ ''T'' @ h @ '':'' @ m @ '':'' @ s @ f) = f"
  using assms by (simp_all add: nth_append)

lemma time_field_facts:
  assumes "check_time_fields h mi s us f"
  shows "length (fmt_d 2 h) = 2" "length (fmt_d 2 mi) = 2" "length (fmt_d 2 s) = 2"
    and "length (fmt_d 6 us) = 6"
    and "parse_nat (fmt_d 2 h) = Some h" "parse_nat (fmt_d 2 mi) = Some mi"
    and "parse_nat (fmt_d 2 s) = Some s" "parse_nat (fmt_d 6 us) = Some us"
proof -
  have b: "0 \<le> h" "h \<le> 23" "0 \<le> mi" "mi \<le> 59" "0 \<le> s" "s \<le> 59" "0 \<le> us" "us \<le> 999999"
    using assms by (simp_all add: check_time_fields_def)
  show "length (fmt_d 2 h) = 2" using b by (intro length_fmt_d2) simp_all
  show "length (fmt_d 2 mi) = 2" using b by (intro length_fmt_d2) simp_all
  show "length (fmt_d 2 s) = 2" using b by (intro length_fmt_d2) simp_all
  show "length (fmt_d 6 us) = 6" using b by (intro length_fmt_d6) simp_all
  show "parse_nat (fmt_d 2 h) = Some h" using b by (intro parse_nat_fmt_d) simp
  show "parse_nat (fmt_d 2 mi) = Some mi" using b by (intro parse_nat_fmt_d) simp
  show "parse_nat (fmt_d 2 s) = Some s" using b by (intro parse_nat_fmt_d) simp
  show "parse_nat (fmt_d 6 us) = Some us" using b by (intro parse_nat_fmt_d) simp
qed

lemma datetime_fromisoformat_isoformat:
  assumes "valid_datetime dt"
  shows "datetime_fromisoformat (datetime_isoformat dt) = Some (dt\<lparr>fold_field := 0\<rparr>)"
proof -
  have cd: "check_date_fields (year dt) (month dt) (day dt)"
    and ct: "check_time_fields (hour dt) (minute dt) (second dt) (microsecond dt) (fold_field dt)"
    using assms by (simp_all add: valid_datetime_def)
  let ?D = "date_isoformat dt"
  let ?h = "fmt_d 2 (hour dt)"
  let ?m = "fmt_d 2 (minute dt)"
  let ?s = "fmt_d 2 (second dt)"
  let ?f = "if microsecond dt \<noteq> 0 then ''.'' @ fmt_d 6 (microsecond dt) else []"
  note tf = time_field_facts [OF ct]
  note sh = dt_shape [OF length_date_isoformat [OF cd] tf(1,2,3), of ?f]
  have iso: "datetime_isoformat dt = ?D @ ''T'' @ ?h @ '':'' @ ?m @ '':'' @ ?s @ ?f"
    by (simp add: datetime_isoformat_def)
  have len: "length (datetime_isoformat dt) = (if microsecond dt \<noteq> 0 then 26 else 19)"
    unfolding iso sh(1) using tf(4) by simp
  have dot: "microsecond dt \<noteq> 0 \<Longrightarrow> datetime_isoformat dt ! 19 = CHR ''.''"
  proof -
    assume "microsecond dt \<noteq> 0"
    then have "?f ! 0 = CHR ''.''" by simp
    moreover have "drop 19 (datetime_isoformat dt) ! 0 = datetime_isoformat dt ! 19"
      using len by (simp add: nth_drop)
    ultimately show ?thesis unfolding iso sh(9) by simp
  qed
  have frac: "microsecond dt \<noteq> 0 \<Longrightarrow> drop 20 (datetime_isoformat dt) = fmt_d 6 (microsecond dt)"
  proof -
    assume nz: "microsecond dt \<noteq> 0"
    have "drop 20 (datetime_isoformat dt) = drop 1 (drop 19 (datetime_isoformat dt))" by simp
    also have "\<dots> = drop 1 ?f" unfolding iso sh(9) ..
    also have "\<dots> = fmt_d 6 (microsecond dt)" using nz by simp
    finally show ?thesis .
  qed
  have us: "(if length (datetime_isoformat dt) = 19 then Some 0
             else parse_nat (drop 20 (datetime_isoformat dt))) = Some (microsecond dt)"
    using len frac tf(8) by (cases "microsecond dt = 0") simp_all
  have shape: "(length (datetime_isoformat dt) = 19 \<or>
                length (datetime_isoformat dt) = 26 \<and> datetime_isoformat dt ! 19 = CHR ''.'') \<and>
               datetime_isoformat dt ! 10 = CHR ''T'' \<and> datetime_isoformat dt ! 13 = CHR '':'' \<and>
               datetime_isoformat dt ! 16 = CHR '':''"
    using len dot sh(2,3,4) unfolding iso [symmetric] by (cases "microsecond dt = 0") simp_all
  have parts: "date_fromisoformat (take 10 (datetime_isoformat dt))
                 = Some \<lparr>year = year dt, month = month dt, day = day dt\<rparr>"
    "parse_nat (take 2 (drop 11 (datetime_isoformat dt))) = Some (hour dt)"
    "parse_nat (take 2 (drop 14 (datetime_isoformat dt))) = Some (minute dt)"
    "parse_nat (take 2 (drop 17 (datetime_isoformat dt))) = Some (second dt)"
    unfolding iso sh(5,6,7,8) using tf(5,6,7) date_fromisoformat_isoformat [OF cd] by simp_all
  have nd: "new_datetime (year dt) (month dt) (day dt) (hour dt) (minute dt) (second dt)
              (microsecond dt) 0 = Inr (dt\<lparr>fold_field := 0\<rparr>)"
    using cd ct by (simp add: new_datetime_def check_time_fields_def)
  show ?thesis
    unfolding datetime_fromisoformat_def
    by (simp only: shape parts us if_True) (simp add: nd)
qed

section \<open>What the synthesizers return\<close>

lemma returns_bind_from:
  assumes "host_kept w0 w" "returns m w P"
    and "\<And>x w'. P x \<Longrightarrow> host_kept w0 w' \<Longrightarrow> returns (f x) w' Q"
  shows "returns (bind m f) w Q"
  using assms(2)
proof (rule returns_bind)
  fix x w'
  assume "P x" "host_kept w w'"
  then show "returns (f x) w' Q"
    using assms(3) [of x w'] host_kept_trans [OF assms(1)] by simp
qed

lemma days_in_month_ge: "1 \<le> m \<Longrightarrow> m \<le> 12 \<Longrightarrow> 28 \<le> days_in_month y m"
  using month_cases [of m] by (auto simp: days_in_month_def DAYS_IN_MONTH_def)

lemma check_date_fields_28:
  "1 \<le> y \<Longrightarrow> y \<le> 9999 \<Longrightarrow> 1 \<le> m \<Longrightarrow> m \<le> 12 \<Longrightarrow> 1 \<le> d \<Longrightarrow> d \<le> 28 \<Longrightarrow>
   check_date_fields y m d"
  using days_in_month_ge [of m y] by (simp add: check_date_fields_def)

lemma returns_new_date:
  assumes "1 \<le> y" "y \<le> 9999" "1 \<le> m" "m \<le> 12" "1 \<le> d" "d \<le> 28"
  shows "returns (lift (new_date y m d)) w
           (\<lambda>bd. bd = \<lparr>year = y, month = m, day = d\<rparr> \<and> check_date_fields y m d)"
proof -
  have cd: "check_date_fields y m d" using assms by (rule check_date_fields_28)
  then have eq: "new_date y m d = Inr \<lparr>year = y, month = m, day = d\<rparr>"
    by (simp add: new_date_def)
  show ?thesis by (rule returns_lift [OF eq]) (simp add: cd)
qed

lemma returns_replace_ymdhm:
  assumes "valid_datetime t"
    and "1 \<le> y" "y \<le> 9999" "1 \<le> m" "m \<le> 12" "1 \<le> d" "d \<le> 28"
    and "0 \<le> h" "h \<le> 23" "0 \<le> mi" "mi \<le> 59"
  shows "returns (lift (replace_ymdhm t y m d h mi)) w
           (\<lambda>dt. dt = \<lparr>year = y, month = m, day = d, hour = h, minute = mi,
                        second = second t, microsecond = microsecond t,
                        fold_field = fold_field t\<rparr> \<and>
                 valid_datetime dt \<and> (fold_field t = 0 \<or> fold_field t = 1))"
proof -
  have cd: "check_date_fields y m d" using assms(2-7) by (rule check_date_fields_28)
  have ct: "check_time_fields h mi (second t) (microsecond t) (fold_field t)"
    using assms(1,8-11) by (simp add: valid_datetime_def check_time_fields_def)
  have fl: "fold_field t = 0 \<or> fold_field t = 1"
    using ct by (simp add: check_time_fields_def)
  have eq: "replace_ymdhm t y m d h mi =
      Inr \<lparr>year = y, month = m, day = d, hour = h, minute = mi,
           second = second t, microsecond = microsecond t, fold_field = fold_field t\<rparr>"
    using cd ct by (simp add: replace_ymdhm_def new_datetime_def)
  show ?thesis
    by (rule returns_lift [OF eq]) (simp add: valid_datetime_def cd ct fl)
qed

lemma returns_uuid4: "returns uuid4 w (\<lambda>s. length s = 36)"
  unfolding uuid4_def Let_def
  apply (rule returns_bind [OF returns_choices])
   apply simp
  apply (rule returns_return)
  apply simp
  done

lemma returns_generate_random_string:
  "returns (generate_random_string n) w (\<lambda>s. length s = n)"
  unfolding generate_random_string_def
  by (rule returns_weaken [OF returns_choices]) (simp_all add: digits_def)

lemma returns_generate_random_email:
  "returns generate_random_email w (\<lambda>s. CHR ''@'' \<in> set s)"
  unfolding generate_random_email_def Let_def
  apply (rule returns_bind [OF returns_generate_random_string])
  apply (rule returns_bind [OF returns_choice])
   apply simp
  apply (rule returns_return)
  apply simp
  done

lemma returns_optional_score:
  "returns optional_score w
     (\<lambda>s. (\<forall>x. s = Some x \<longrightarrow> 0 \<le> x \<and> x \<le> 10000) \<and> (s = None \<longleftrightarrow> draws w 0 mod 2 = 1))"
  unfolding optional_score_def
proof (rule returns_bind [OF returns_coin])
  fix c w'
  assume c: "c \<longleftrightarrow> draws w 0 mod 2 = 0"
  show "returns (if c then bind (uniform_round2 0 10000) (\<lambda>x. return (Some x)) else return None) w'
     (\<lambda>s. (\<forall>x. s = Some x \<longrightarrow> 0 \<le> x \<and> x \<le> 10000) \<and> (s = None \<longleftrightarrow> draws w 0 mod 2 = 1))"
  proof (cases c)
    case True
    have "returns (bind (uniform_round2 0 10000) (\<lambda>x. return (Some x))) w'
       (\<lambda>s. (\<forall>x. s = Some x \<longrightarrow> 0 \<le> x \<and> x \<le> 10000) \<and> (s = None \<longleftrightarrow> draws w 0 mod 2 = 1))"
      apply (rule returns_bind [OF returns_uniform_round2])
       apply simp
      apply (rule returns_return)
      using c True apply simp
      done
    then show ?thesis using True by simp
  next
    case False
    have "returns (return None) w'
       (\<lambda>s. (\<forall>x::int. s = Some x \<longrightarrow> 0 \<le> x \<and> x \<le> 10000) \<and> (s = None \<longleftrightarrow> draws w 0 mod 2 = 1))"
      apply (rule returns_return)
      using c False apply simp
      done
    then show ?thesis using False by simp
  qed
qed

lemma returns_optional_description:
  "returns (optional_description i) w
     (\<lambda>s. (\<forall>x. s = Some x \<longrightarrow> x = ''This is a sample description for user '' @ str_int i) \<and>
          (s = None \<longleftrightarrow> draws w 0 mod 2 = 1))"
  unfolding optional_description_def
  apply (rule returns_bind [OF returns_coin])
  apply (rule returns_return)
  apply simp
  done

lemma returns_bind_kept:
  assumes "host_kept w0 w" "host_kept w0 w \<Longrightarrow> returns m w P"
    and "\<And>x w'. P x \<Longrightarrow> host_kept w0 w' \<Longrightarrow> returns (f x) w' Q"
  shows "returns (bind m f) w Q"
  using assms(1) assms(2) [OF assms(1)] assms(3) by (rule returns_bind_from)

lemma returns_now_kept:
  "host_kept w0 w \<Longrightarrow> clock_ok w0 \<Longrightarrow> returns now w valid_datetime"
  by (rule returns_weaken [OF returns_now]) (simp add: host_kept_def)

lemma returns_zone_kept:
  "host_kept w0 w \<Longrightarrow> returns get_utcoffset w (\<lambda>tz. tz = utcoffset w0)"
  by (rule returns_weaken [OF returns_get_utcoffset]) (simp add: host_kept_def)

lemma returns_optional_score_kept:
  "host_kept w0 w \<Longrightarrow>
   returns optional_score w
     (\<lambda>s. (\<forall>x. s = Some x \<longrightarrow> 0 \<le> x \<and> x \<le> 10000) \<and>
          (frozen w0 \<longrightarrow> (s = None \<longleftrightarrow> draws w0 0 mod 2 = 1)))"
  by (rule returns_weaken [OF returns_optional_score]) (auto simp: host_kept_def)

lemma returns_optional_description_kept:
  "host_kept w0 w \<Longrightarrow>
   returns (optional_description i) w
     (\<lambda>s. (\<forall>x. s = Some x \<longrightarrow> x = ''This is a sample description for user '' @ str_int i) \<and>
          (frozen w0 \<longrightarrow> (s = None \<longleftrightarrow> draws w0 0 mod 2 = 1)))"
  by (rule returns_weaken [OF returns_optional_description]) (auto simp: host_kept_def)

lemma returns_generate_data_object:
  "returns (generate_data_object i) w
     (\<lambda>r. id_field r = i \<and> 18 \<le> age r \<and> age r \<le> 80 \<and>
          1 \<le> length (tags r) \<and> length (tags r) \<le> 5 \<and> distinct (tags r) \<and>
          set (tags r) \<subseteq> set all_tags \<and>
          2 \<le> length (skills (metadata r)) \<and> length (skills (metadata r)) \<le> 4 \<and>
          distinct (skills (metadata r)) \<and> set (skills (metadata r)) \<subseteq> set all_skills \<and>
          (frozen w \<longrightarrow> (score r = None \<longleftrightarrow> draws w 0 mod 2 = 1) \<and>
                        (description r = None \<longleftrightarrow> draws w 0 mod 2 = 1)))"
  unfolding generate_data_object_def
  using host_kept_refl [of w]
  apply -
  apply (erule returns_bind_kept, rule returns_uuid4)
  apply (erule returns_bind_kept, rule returns_generate_random_string)
  apply (erule returns_bind_kept, rule returns_generate_random_email)
  apply (erule returns_bind_kept, rule returns_randint, simp)
  apply (erule returns_bind_kept, rule returns_uniform_round2, simp)
  apply (erule returns_bind_kept, rule returns_uniform_round2, simp)
  apply (erule returns_bind_kept, rule returns_coin)
  apply (erule returns_bind_kept, rule returns_uniform_round2, simp)
  apply (erule returns_bind_kept, rule returns_randint, simp)
  apply (erule returns_bind_kept, rule returns_randint, simp)
  apply (erule returns_bind_kept, rule returns_randint, simp)
  apply (erule returns_bind_kept, rule returns_new_date, simp_all) [1]
  apply (erule returns_bind_kept, rule returns_now)
  apply (erule returns_bind_kept, rule returns_generate_random_tags)
  apply (erule returns_bind_kept, rule returns_generate_random_metadata)
  apply (erule returns_bind_kept, erule returns_optional_score_kept)
  apply (erule returns_bind_kept, erule returns_optional_description_kept)
  apply (rule returns_return)
  apply simp
  done

lemma returns_randint_kept:
  assumes "host_kept w0 w" "a \<le> b"
  shows "returns (randint a b) w
     (\<lambda>x. a \<le> x \<and> x \<le> b \<and> (frozen w0 \<longrightarrow> x = a + int (draws w0 0 mod nat (b - a + 1))))"
proof -
  have n: "0 < nat (b - a + 1)" using assms(2) by simp
  have same: "frozen w0 \<Longrightarrow> w = w0" using assms(1) by (simp add: host_kept_def)
  have "returns (bind (randbelow (nat (b - a + 1))) (\<lambda>r. return (a + int r))) w
     (\<lambda>x. a \<le> x \<and> x \<le> b \<and> (frozen w0 \<longrightarrow> x = a + int (draws w0 0 mod nat (b - a + 1))))"
  proof (rule returns_bind [OF returns_randbelow [OF n]])
    fix r w'
    assume r: "r < nat (b - a + 1) \<and> r = draws w 0 mod nat (b - a + 1)"
    then have "a + int r \<le> b" by linarith
    then show "returns (return (a + int r)) w'
      (\<lambda>x. a \<le> x \<and> x \<le> b \<and> (frozen w0 \<longrightarrow> x = a + int (draws w0 0 mod nat (b - a + 1))))"
      using r same by (intro returns_return) auto
  qed
  then show ?thesis using assms(2) by (simp add: randint_def)
qed

lemma returns_now_frozen:
  assumes "host_kept w0 w" "clock_ok w0"
  shows "returns now w (\<lambda>t. valid_datetime t \<and> (frozen w0 \<longrightarrow> t = clock w0 0))"
proof -
  have same: "frozen w0 \<Longrightarrow> w = w0" using assms(1) by (simp add: host_kept_def)
  have ok: "clock_ok w" using assms by (simp add: host_kept_def)
  then have v: "valid_datetime (clock w 0)" by (simp add: clock_ok_def)
  show ?thesis
    unfolding returns_def now_def using v same host_kept_clock [of w] by auto
qed

lemma returns_generate_data_object_with_different_dates:
  assumes "clock_ok w"
  shows "returns (generate_data_object_with_different_dates i) w
     (\<lambda>r. dd_id r = i \<and>
          1 \<le> length (dd_tags r) \<and> length (dd_tags r) \<le> 5 \<and> distinct (dd_tags r) \<and>
          set (dd_tags r) \<subseteq> set all_tags \<and>
          2 \<le> length (skills (dd_metadata r)) \<and> length (skills (dd_metadata r)) \<le> 4 \<and>
          distinct (skills (dd_metadata r)) \<and> set (skills (dd_metadata r)) \<subseteq> set all_skills \<and>
          (case date_fromisoformat (birth_date_iso r) of
             None \<Rightarrow> False
           | Some bd \<Rightarrow>
               check_date_fields (year bd) (month bd) (day bd) \<and>
               1940 \<le> year bd \<and> year bd \<le> 2005 \<and> day bd \<le> 28 \<and>
               birth_date_iso r = date_isoformat bd \<and> birth_date_us r = strftime_us bd \<and>
               birth_date_eu r = strftime_eu bd \<and> birth_date_long r = strftime_long bd \<and>
               (frozen w \<longrightarrow>
                  bd = \<lparr>year = 1940 + int (draws w 0 mod 66), month = 1 + int (draws w 0 mod 12),
                        day = 1 + int (draws w 0 mod 28)\<rparr>)) \<and>
          (case datetime_fromisoformat (created_at_iso r) of
             None \<Rightarrow> False
           | Some dt \<Rightarrow>
               valid_datetime dt \<and> 2020 \<le> year dt \<and> year dt \<le> 2024 \<and> day dt \<le> 28 \<and>
               created_at_iso r = datetime_isoformat dt \<and>
               (created_at_timestamp r = int_timestamp (utcoffset w) dt \<or>
                created_at_timestamp r = int_timestamp (utcoffset w) (dt\<lparr>fold_field := 1\<rparr>)) \<and>
               created_at_readable r = strftime_readable dt \<and>
               (frozen w \<longrightarrow>
                  created_at_timestamp r =
                    int_timestamp (utcoffset w) (dt\<lparr>fold_field := fold_field (clock w 0)\<rparr>) \<and>
                  dt = \<lparr>year = 2020 + int (draws w 0 mod 5), month = 1 + int (draws w 0 mod 12),
                        day = 1 + int (draws w 0 mod 28), hour = int (draws w 0 mod 24),
                        minute = int (draws w 0 mod 60), second = second (clock w 0),
                        microsecond = microsecond (clock w 0), fold_field = 0\<rparr>)))"
  unfolding generate_data_object_with_different_dates_def
  using assms host_kept_refl [of w]
  apply -
  apply (erule returns_bind_kept, erule returns_randint_kept, simp)
  apply (erule returns_bind_kept, erule returns_randint_kept, simp)
  apply (erule returns_bind_kept, erule returns_randint_kept, simp)
  apply (erule returns_bind_kept, rule returns_new_date, simp_all) [1]
  apply (erule returns_bind_kept, erule returns_now_frozen, assumption)
  apply (erule returns_bind_kept, erule returns_randint_kept, simp)
  apply (erule returns_bind_kept, erule returns_randint_kept, simp)
  apply (erule returns_bind_kept, erule returns_randint_kept, simp)
  apply (erule returns_bind_kept, erule returns_randint_kept, simp)
  apply (erule returns_bind_kept, erule returns_randint_kept, simp)
  apply (erule returns_bind_kept, rule returns_replace_ymdhm, simp_all) [1]
  apply (erule returns_bind_kept, rule returns_uuid4)
  apply (erule returns_bind_kept, rule returns_generate_random_string)
  apply (erule returns_bind_kept, rule returns_generate_random_email)
  apply (erule returns_bind_kept, rule returns_randint, simp)
  apply (erule returns_bind_kept, rule returns_uniform_round2, simp)
  apply (erule returns_bind_kept, rule returns_uniform_round2, simp)
  apply (erule returns_bind_kept, rule returns_coin)
  apply (erule returns_bind_kept, rule returns_uniform_round2, simp)
  apply (erule returns_bind_kept, erule returns_zone_kept)
  apply (erule returns_bind_kept, rule returns_generate_random_tags)
  apply (erule returns_bind_kept, rule returns_generate_random_metadata)
  apply (erule returns_bind_kept, rule returns_optional_score)
  apply (erule returns_bind_kept, rule returns_optional_description)
  apply (rule returns_return)
  apply (simp add: date_fromisoformat_isoformat datetime_fromisoformat_isoformat)
  apply (elim conjE)
  apply (erule disjE)
   apply (simp add: valid_datetime_def check_time_fields_def datetime_isoformat_def
      date_isoformat_def strftime_readable_def weekday_def toordinal_def)
  apply (simp add: valid_datetime_def check_time_fields_def datetime_isoformat_def
      date_isoformat_def strftime_readable_def weekday_def toordinal_def)
  done

section \<open>The envelope of a valid request\<close>

lemma ceil_div_aux: 
  assumes "0 < (b::int)" shows "(a + b - 1) div b = - ((- a) div b)"
proof -
  define q where "q = a div b"
  define r where "r = a mod b"
  have r: "0 \<le> r" "r < b" using assms by (simp_all add: r_def)
  have a: "a = b * q + r" by (simp add: q_def r_def)
  have "(a + b - 1) div b = q + (r + b - 1) div b"
  proof -
    have "a + b - 1 = (r + b - 1) + b * q" using a by simp
    then have "(a + b - 1) div b = ((r + b - 1) + b * q) div b" by (simp only:)
    also have "\<dots> = q + (r + b - 1) div b" using assms by simp
    finally show ?thesis .
  qed
  moreover have "(r + b - 1) div b = (if r = 0 then 0 else 1)"
  proof (cases "r = 0")
    case True then show ?thesis using assms by simp
  next
    case False
    then have "r + b - 1 = (r - 1) + b * 1" "0 \<le> r - 1" "r - 1 < b" using r by simp_all
    then have "(r + b - 1) div b = 1 + (r - 1) div b"
      by (metis add.commute div_mult_self2 assms less_irrefl)
    then show ?thesis using False \<open>0 \<le> r - 1\<close> \<open>r - 1 < b\<close> by simp
  qed
  moreover have "(- a) div b = (if r = 0 then - q else - q - 1)"
    using assms by (simp add: zdiv_zminus1_eq_if q_def r_def)
  ultimately show ?thesis by simp
qed

lemma ceil_div: "0 < (b::int) \<Longrightarrow> (a + b - 1) div b = \<lceil>real_of_int a / real_of_int b\<rceil>"
  by (simp add: ceil_div_aux ceiling_divide_eq_div)

lemma bind_lift_Inr: "bind (lift (Inr x)) f = f x"
  by (rule ext) (simp add: bind_def lift_def)

lemma bind_lift_Inl: "bind (lift (Inl e)) f = (\<lambda>w. Inl e)"
  by (rule ext) (simp add: bind_def lift_def)

lemma query_page_Some: "query_page (Some x) = (if 1 \<le> x then Inr x else Inl RequestValidationError)"
  by (simp add: query_page_def query_int_def)

lemma query_page_size_Some:
  "query_page_size (Some x) = (if 1 \<le> x \<and> x \<le> 100 then Inr x else Inl RequestValidationError)"
  by (simp add: query_page_size_def query_int_def)

lemma query_total_records_Some:
  "query_total_records (Some x) =
     (if 1 \<le> x \<and> x \<le> 10000 then Inr x else Inl RequestValidationError)"
  by (simp add: query_total_records_def query_int_def)

lemma query_defaults:
  "query_page None = Inr 1" "query_page_size None = Inr 10" "query_total_records None = Inr 1000"
  by (simp_all add: query_page_def query_page_size_def query_total_records_def query_int_def)

lemma get_data_valid:
  "1 \<le> pg \<Longrightarrow> 1 \<le> ps \<Longrightarrow> ps \<le> 100 \<Longrightarrow> 1 \<le> t \<Longrightarrow> t \<le> 10000 \<Longrightarrow>
   get_data (Some pg) (Some ps) (Some t) = paginate generate_data_object pg ps t"
  by (simp add: get_data_def query_page_Some query_page_size_Some query_total_records_Some
      bind_lift_Inr)

lemma get_data_with_date_formats_valid:
  "1 \<le> pg \<Longrightarrow> 1 \<le> ps \<Longrightarrow> ps \<le> 100 \<Longrightarrow> 1 \<le> t \<Longrightarrow> t \<le> 10000 \<Longrightarrow>
   get_data_with_date_formats (Some pg) (Some ps) (Some t)
     = paginate generate_data_object_with_different_dates pg ps t"
  by (simp add: get_data_with_date_formats_def query_page_Some query_page_size_Some
      query_total_records_Some bind_lift_Inr)

lemma map_succ_py_range: "map (\<lambda>i. i + 1) (py_range a b) = [a + 1..b]"
proof (rule nth_equalityI)
  show "length (map (\<lambda>i. i + 1) (py_range a b)) = length [a + 1..b]"
    by (simp add: py_range_def)
next
  fix k
  assume "k < length (map (\<lambda>i. i + 1) (py_range a b))"
  then have k: "int k < b - a" by (simp add: py_range_def)
  then show "map (\<lambda>i. i + 1) (py_range a b) ! k = [a + 1..b] ! k"
    by (simp add: py_range_def)
qed

lemma list_all2_ids:
  assumes "list_all2 (\<lambda>i x. f x = i + 1) (py_range a b) xs"
  shows "map f xs = [a + 1..b]" and "int (length xs) = max 0 (b - a)"
proof -
  have "map f xs = map (\<lambda>i. i + 1) (py_range a b)"
    using assms by (induction rule: list_all2_induct) simp_all
  then show "map f xs = [a + 1..b]" by (simp add: map_succ_py_range)
  have "length xs = length (py_range a b)" using assms by (simp add: list_all2_lengthD)
  then show "int (length xs) = max 0 (b - a)" by (simp add: py_range_def)
qed

lemma returns_envelope:
  assumes v: "1 \<le> pg" "1 \<le> ps" "1 \<le> t"
    and gen: "\<And>i w'. host_kept w w' \<Longrightarrow> returns (generate i) w' (\<lambda>x. f x = i)"
  shows "returns (paginate generate pg ps t) w
     (\<lambda>r. total_field r = t \<and> page r = pg \<and> page_size r = ps \<and>
          total_pages r = \<lceil>real_of_int t / real_of_int ps\<rceil> \<and>
          has_next r = (pg < total_pages r) \<and> has_previous r = (1 < pg) \<and>
          int (length (data r)) = min ps (max 0 (t - (pg - 1) * ps)) \<and>
          map f (data r) = [(pg - 1) * ps + 1..min (pg * ps) t])"
proof -
  have ps: "0 < ps" using v by simp
  have e: "(pg - 1) * ps + ps = pg * ps" by (simp add: algebra_simps)
  show ?thesis
  proof (rule returns_weaken [OF returns_paginate [OF ps gen]])
    fix r
    assume r: "total_field r = t \<and> page r = pg \<and> page_size r = ps \<and>
      total_pages r = (t + ps - 1) div ps \<and> has_next r = (pg < total_pages r) \<and>
      has_previous r = (1 < pg) \<and>
      list_all2 (\<lambda>i x. f x = i + 1)
        (py_range ((pg - 1) * ps) (min ((pg - 1) * ps + ps) t)) (data r)"
    then have la: "list_all2 (\<lambda>i x. f x = i + 1)
        (py_range ((pg - 1) * ps) (min (pg * ps) t)) (data r)"
      by (simp only: e)
    have len: "int (length (data r)) = min ps (max 0 (t - (pg - 1) * ps))"
      using list_all2_ids(2) [OF la] ps by (simp add: algebra_simps min_def max_def)
    show "total_field r = t \<and> page r = pg \<and> page_size r = ps \<and>
          total_pages r = \<lceil>real_of_int t / real_of_int ps\<rceil> \<and>
          has_next r = (pg < total_pages r) \<and> has_previous r = (1 < pg) \<and>
          int (length (data r)) = min ps (max 0 (t - (pg - 1) * ps)) \<and>
          map f (data r) = [(pg - 1) * ps + 1..min (pg * ps) t]"
      using r len list_all2_ids(1) [OF la] ceil_div [OF ps, of t] by simp
  qed
qed

lemma returns_id_field:
  "returns (generate_data_object i) w (\<lambda>x. id_field x = i)"
  by (rule returns_weaken [OF returns_generate_data_object]) simp

lemma returns_dd_id:
  "clock_ok w \<Longrightarrow> returns (generate_data_object_with_different_dates i) w (\<lambda>x. dd_id x = i)"
  by (rule returns_weaken [OF returns_generate_data_object_with_different_dates]) simp_all

lemma returns_get_data:
  assumes "1 \<le> pg" "1 \<le> ps" "ps \<le> 100" "1 \<le> t" "t \<le> 10000"
  shows "returns (get_data (Some pg) (Some ps) (Some t)) w
     (\<lambda>r. total_field r = t \<and> page r = pg \<and> page_size r = ps \<and>
          total_pages r = \<lceil>real_of_int t / real_of_int ps\<rceil> \<and>
          has_next r = (pg < total_pages r) \<and> has_previous r = (1 < pg) \<and>
          int (length (data r)) = min ps (max 0 (t - (pg - 1) * ps)) \<and>
          map id_field (data r) = [(pg - 1) * ps + 1..min (pg * ps) t])"
  unfolding get_data_valid [OF assms]
  by (rule returns_envelope [OF assms(1,2,4)]) (rule returns_id_field)

lemma returns_get_data_with_date_formats:
  assumes "1 \<le> pg" "1 \<le> ps" "ps \<le> 100" "1 \<le> t" "t \<le> 10000" and c: "clock_ok w"
  shows "returns (get_data_with_date_formats (Some pg) (Some ps) (Some t)) w
     (\<lambda>r. total_field r = t \<and> page r = pg \<and> page_size r = ps \<and>
          total_pages r = \<lceil>real_of_int t / real_of_int ps\<rceil> \<and>
          has_next r = (pg < total_pages r) \<and> has_previous r = (1 < pg) \<and>
          int (length (data r)) = min ps (max 0 (t - (pg - 1) * ps)) \<and>
          map dd_id (data r) = [(pg - 1) * ps + 1..min (pg * ps) t])"
  unfolding get_data_with_date_formats_valid [OF assms(1-5)]
proof (rule returns_envelope [OF assms(1,2,4)])
  fix i w'
  assume "host_kept w w'"
  then have "clock_ok w'" using c by (simp add: host_kept_def)
  then show "returns (generate_data_object_with_different_dates i) w' (\<lambda>x. dd_id x = i)"
    by (rule returns_dd_id)
qed

lemma div_less_of_less_mult:
  assumes "0 < (c::int)" "a < b * c" shows "a div c < b"
proof (rule ccontr)
  assume "\<not> a div c < b"
  then have "b \<le> a div c" by simp
  then have "b * c \<le> a div c * c" using assms(1) by (simp add: mult_right_mono)
  also have "\<dots> \<le> a"
  proof -
    have "a = a div c * c + a mod c" by simp
    moreover have "0 \<le> a mod c" using assms(1) by simp
    ultimately show ?thesis by linarith
  qed
  finally show False using assms(2) by simp
qed

lemma paginate_empty:
  assumes ps: "0 < ps" and past: "t \<le> (pg - 1) * ps"
  shows "paginate generate pg ps t w =
     Inr (\<lparr>data = [], total_field = t, page = pg, page_size = ps,
           total_pages = (t + ps - 1) div ps, has_next = (pg < (t + ps - 1) div ps),
           has_previous = (1 < pg)\<rparr>, w)"
proof -
  have fd: "floordiv (t + ps - 1) ps = Inr ((t + ps - 1) div ps)"
    using ps by (simp add: floordiv_def)
  have rg: "py_range ((pg - 1) * ps) (min ((pg - 1) * ps + ps) t) = []"
    using past by (simp add: py_range_def)
  show ?thesis
    by (simp add: paginate_def Let_def fd rg bind_def lift_def return_def)
qed

lemma past_the_end:
  fixes pg ps t :: int
  assumes "1 \<le> ps" "1 \<le> t" "t \<le> (pg - 1) * ps"
  shows "\<not> pg < (t + ps - 1) div ps" "1 < pg"
proof -
  have "(pg - 1) * ps = pg * ps - ps" by (simp add: left_diff_distrib)
  then have "t + ps - 1 < pg * ps" using assms by linarith
  then have "(t + ps - 1) div ps < pg" using assms(1) by (intro div_less_of_less_mult) simp_all
  then show "\<not> pg < (t + ps - 1) div ps" by simp
  show "1 < pg"
  proof (rule ccontr)
    assume "\<not> 1 < pg"
    then have "pg - 1 \<le> 0" by simp
    then have "(pg - 1) * ps \<le> 0" using assms(1) by (simp add: mult_le_0_iff)
    then show False using assms(2,3) by simp
  qed
qed

lemma ids_by_position:
  assumes "map f xs = [a + 1..b]" "k < length xs"
  shows "f (xs ! k) = a + int k + 1"
proof -
  have "length xs = length [a + 1..b]" using assms(1) by (metis length_map)
  then have "a + 1 + int k \<le> b" using assms(2) by simp
  then have "[a + 1..b] ! k = a + 1 + int k" by (rule nth_upto)
  moreover have "f (xs ! k) = map f xs ! k" using assms(2) by simp
  ultimately show ?thesis using assms(1) by simp
qed

lemma get_data_split:
  "get_data qp qps qt =
     (let pg = (case qp of None \<Rightarrow> 1 | Some x \<Rightarrow> x);
          ps = (case qps of None \<Rightarrow> 10 | Some x \<Rightarrow> x);
          t = (case qt of None \<Rightarrow> 1000 | Some x \<Rightarrow> x)
      in if 1 \<le> pg \<and> 1 \<le> ps \<and> ps \<le> 100 \<and> 1 \<le> t \<and> t \<le> 10000
         then paginate generate_data_object pg ps t
         else (\<lambda>w. Inl RequestValidationError))"
  by (cases qp; cases qps; cases qt)
     (simp_all add: get_data_def query_defaults query_page_Some query_page_size_Some
        query_total_records_Some bind_lift_Inr bind_lift_Inl)

lemma get_data_with_date_formats_split:
  "get_data_with_date_formats qp qps qt =
     (let pg = (case qp of None \<Rightarrow> 1 | Some x \<Rightarrow> x);
          ps = (case qps of None \<Rightarrow> 10 | Some x \<Rightarrow> x);
          t = (case qt of None \<Rightarrow> 1000 | Some x \<Rightarrow> x)
      in if 1 \<le> pg \<and> 1 \<le> ps \<and> ps \<le> 100 \<and> 1 \<le> t \<and> t \<le> 10000
         then paginate generate_data_object_with_different_dates pg ps t
         else (\<lambda>w. Inl RequestValidationError))"
  by (cases qp; cases qps; cases qt)
     (simp_all add: get_data_with_date_formats_def query_defaults query_page_Some
        query_page_size_Some query_total_records_Some bind_lift_Inr bind_lift_Inl)

lemma plan_outcome_get_data:
  assumes "1 \<le> pg" "1 \<le> ps" "ps \<le> 100" "1 \<le> t" "t \<le> 10000"
  shows "plan_outcome id_field (paginate generate_data_object pg ps t w) =
     Inr (t, pg, ps, \<lceil>real_of_int t / real_of_int ps\<rceil>,
          pg < \<lceil>real_of_int t / real_of_int ps\<rceil>, 1 < pg,
          nat (min ps (max 0 (t - (pg - 1) * ps))),
          [(pg - 1) * ps + 1..min (pg * ps) t])"
proof -
  from returns_get_data [OF assms, of w]
  obtain r w' where r: "get_data (Some pg) (Some ps) (Some t) w = Inr (r, w')"
    "total_field r = t" "page r = pg" "page_size r = ps"
    "total_pages r = \<lceil>real_of_int t / real_of_int ps\<rceil>"
    "has_next r = (pg < total_pages r)" "has_previous r = (1 < pg)"
    "int (length (data r)) = min ps (max 0 (t - (pg - 1) * ps))"
    "map id_field (data r) = [(pg - 1) * ps + 1..min (pg * ps) t]"
    unfolding returns_def by blast
  have len: "length (data r) = nat (min ps (max 0 (t - (pg - 1) * ps)))"
    using r(8) by linarith
  show ?thesis
    using r(1) unfolding get_data_valid [OF assms]
    by (simp add: plan_outcome_def envelope_plan_def r(2-7,9) len)
qed

lemma plan_outcome_get_data_with_date_formats:
  assumes "1 \<le> pg" "1 \<le> ps" "ps \<le> 100" "1 \<le> t" "t \<le> 10000" and c: "clock_ok w"
  shows "plan_outcome dd_id (paginate generate_data_object_with_different_dates pg ps t w) =
     Inr (t, pg, ps, \<lceil>real_of_int t / real_of_int ps\<rceil>,
          pg < \<lceil>real_of_int t / real_of_int ps\<rceil>, 1 < pg,
          nat (min ps (max 0 (t - (pg - 1) * ps))),
          [(pg - 1) * ps + 1..min (pg * ps) t])"
proof -
  from returns_get_data_with_date_formats [OF assms]
  obtain r w' where r: "get_data_with_date_formats (Some pg) (Some ps) (Some t) w = Inr (r, w')"
    "total_field r = t" "page r = pg" "page_size r = ps"
    "total_pages r = \<lceil>real_of_int t / real_of_int ps\<rceil>"
    "has_next r = (pg < total_pages r)" "has_previous r = (1 < pg)"
    "int (length (data r)) = min ps (max 0 (t - (pg - 1) * ps))"
    "map dd_id (data r) = [(pg - 1) * ps + 1..min (pg * ps) t]"
    unfolding returns_def by blast
  have len: "length (data r) = nat (min ps (max 0 (t - (pg - 1) * ps)))"
    using r(8) by linarith
  show ?thesis
    using r(1) unfolding get_data_with_date_formats_valid [OF assms(1-5)]
    by (simp add: plan_outcome_def envelope_plan_def r(2-7,9) len)
qed

lemma replace_ymdhm_valid:
  assumes "valid_datetime t"
    and "1 \<le> y" "y \<le> 9999" "1 \<le> m" "m \<le> 12" "1 \<le> d" "d \<le> 28"
    and "0 \<le> h" "h \<le> 23" "0 \<le> mi" "mi \<le> 59"
  shows "\<exists>dt. replace_ymdhm t y m d h mi = Inr dt \<and> valid_datetime dt"
proof -
  have cd: "check_date_fields y m d" using assms(2-7) by (rule check_date_fields_28)
  have ct: "check_time_fields h mi (second t) (microsecond t) (fold_field t)"
    using assms(1,8-11) by (simp add: valid_datetime_def check_time_fields_def)
  show ?thesis using cd ct by (simp add: replace_ymdhm_def new_datetime_def valid_datetime_def)
qed

lemma validates_data_object_json:
  "0 \<le> age r \<Longrightarrow> age r \<le> 150 \<Longrightarrow> validates get_schema (data_object_json r)"
  by (simp add: validates_def get_schema_def data_object_json_def metadata_json_def
      valid_property_def property_def has_type_def above_minimum_def below_maximum_def
      list_all_iff split: option.split)

lemma required_fields_present:
  "\<forall>k \<in> set (required get_schema).
     \<exists>v. json_field k (data_object_json r) = Some v \<and> v \<noteq> JNull"
  by (simp add: get_schema_def json_field_def data_object_json_def metadata_json_def)

lemma only_optional_fields_null:
  "json_field k (data_object_json r) = Some JNull \<Longrightarrow> k = ''score'' \<or> k = ''description''"
  by (auto simp: json_field_def data_object_json_def metadata_json_def split: if_splits)

lemma schema_shape:
  "length (required get_schema) = 13"
  "map_option minimum (map_of (properties get_schema) ''age'') = Some (Some 0)"
  "map_option maximum (map_of (properties get_schema) ''age'') = Some (Some 150)"
  "filter (\<lambda>k. k \<notin> set (required get_schema)) (map fst (properties get_schema))
     = [''score'', ''description'']"
  by (simp_all add: get_schema_def property_def)

















lemma utc_host_facts:
  "clock_ok utc_host" "frozen utc_host" "draws utc_host 0 = 13" "utcoffset utc_host = (\<lambda>t. 0)"
  by (simp_all add: utc_host_def clock_ok_def frozen_def valid_datetime_def
      check_date_fields_def check_time_fields_def days_in_month_def DAYS_IN_MONTH_def)


section \<open>Verified properties of the service\<close>

text \<open>
  C1. For every valid triple (page at least 1, page size in 1..100, total in
  1..10000) both paginated endpoints answer with an envelope whose \<open>total_pages\<close> is
  the ceiling of total / page size and whose data list has
  \<open>min page_size (max 0 (total - (page - 1) * page_size))\<close> records. (The
  multi-date endpoint reads the clock's second and microsecond back through the
  datetime constructor, so its part is under a well-formed clock.)
\<close>

theorem page_count_and_length:
  assumes "1 \<le> pg" "1 \<le> ps" "ps \<le> 100" "1 \<le> t" "t \<le> 10000"
  shows "(\<exists>r w'. get_data (Some pg) (Some ps) (Some t) w = Inr (r, w') \<and>
            total_pages r = \<lceil>real_of_int t / real_of_int ps\<rceil> \<and>
            int (length (data r)) = min ps (max 0 (t - (pg - 1) * ps))) \<and>
         (clock_ok w \<longrightarrow>
           (\<exists>r w'. get_data_with_date_formats (Some pg) (Some ps) (Some t) w = Inr (r, w') \<and>
              total_pages r = \<lceil>real_of_int t / real_of_int ps\<rceil> \<and>
              int (length (data r)) = min ps (max 0 (t - (pg - 1) * ps))))"
proof (intro conjI impI)
  from returns_get_data [OF assms, of w]
  show "\<exists>r w'. get_data (Some pg) (Some ps) (Some t) w = Inr (r, w') \<and>
            total_pages r = \<lceil>real_of_int t / real_of_int ps\<rceil> \<and>
            int (length (data r)) = min ps (max 0 (t - (pg - 1) * ps))"
    unfolding returns_def by blast
next
  assume "clock_ok w"
  from returns_get_data_with_date_formats [OF assms this]
  show "\<exists>r w'. get_data_with_date_formats (Some pg) (Some ps) (Some t) w = Inr (r, w') \<and>
              total_pages r = \<lceil>real_of_int t / real_of_int ps\<rceil> \<and>
              int (length (data r)) = min ps (max 0 (t - (pg - 1) * ps))"
    unfolding returns_def by blast
qed

theorem page_count_and_length_witness:
  "(\<exists>r w'. get_data (Some 4) (Some 3) (Some 10) utc_host = Inr (r, w') \<and>
      total_pages r = 4 \<and> int (length (data r)) = 1) \<and>
   (\<exists>r w'. get_data_with_date_formats (Some 4) (Some 3) (Some 10) utc_host = Inr (r, w') \<and>
      total_pages r = 4 \<and> int (length (data r)) = 1)"
  using page_count_and_length [of 4 3 10 utc_host] utc_host_facts(1) by simp

text \<open>
  C2. For every valid triple, the page past the last one included, both endpoints
  answer with \<open>has_previous = (page > 1)\<close> and \<open>has_next = (page < total_pages)\<close>,
  where \<open>total_pages\<close> is the envelope's own field and equally the ceiling of
  total / page size.
\<close>

theorem navigation_flags:
  assumes "1 \<le> pg" "1 \<le> ps" "ps \<le> 100" "1 \<le> t" "t \<le> 10000"
  shows "(\<exists>r w'. get_data (Some pg) (Some ps) (Some t) w = Inr (r, w') \<and>
            has_previous r = (1 < pg) \<and> has_next r = (pg < total_pages r) \<and>
            has_next r = (pg < \<lceil>real_of_int t / real_of_int ps\<rceil>)) \<and>
         (clock_ok w \<longrightarrow>
           (\<exists>r w'. get_data_with_date_formats (Some pg) (Some ps) (Some t) w = Inr (r, w') \<and>
              has_previous r = (1 < pg) \<and> has_next r = (pg < total_pages r) \<and>
              has_next r = (pg < \<lceil>real_of_int t / real_of_int ps\<rceil>)))"
proof (intro conjI impI)
  from returns_get_data [OF assms, of w]
  show "\<exists>r w'. get_data (Some pg) (Some ps) (Some t) w = Inr (r, w') \<and>
            has_previous r = (1 < pg) \<and> has_next r = (pg < total_pages r) \<and>
            has_next r = (pg < \<lceil>real_of_int t / real_of_int ps\<rceil>)"
    unfolding returns_def by auto
next
  assume "clock_ok w"
  from returns_get_data_with_date_formats [OF assms this]
  show "\<exists>r w'. get_data_with_date_formats (Some pg) (Some ps) (Some t) w = Inr (r, w') \<and>
              has_previous r = (1 < pg) \<and> has_next r = (pg < total_pages r) \<and>
              has_next r = (pg < \<lceil>real_of_int t / real_of_int ps\<rceil>)"
    unfolding returns_def by auto
qed

theorem navigation_flags_witness:
  "(\<exists>r w'. get_data (Some 5) (Some 3) (Some 10) utc_host = Inr (r, w') \<and>
      has_previous r \<and> \<not> has_next r) \<and>
   (\<exists>r w'. get_data_with_date_formats (Some 5) (Some 3) (Some 10) utc_host = Inr (r, w') \<and>
      has_previous r \<and> \<not> has_next r)"
  using navigation_flags [of 5 3 10 utc_host] utc_host_facts(1) by auto

text \<open>
  C3. For every valid triple the identities of the records of the page are, in
  order, the run \<open>(page - 1) * page_size + 1 .. min (page * page_size) total\<close>: the
  record at position \<open>k\<close> (from zero) has identity \<open>(page - 1) * page_size + k + 1\<close>.
\<close>

theorem page_identities:
  assumes "1 \<le> pg" "1 \<le> ps" "ps \<le> 100" "1 \<le> t" "t \<le> 10000"
  shows "(\<exists>r w'. get_data (Some pg) (Some ps) (Some t) w = Inr (r, w') \<and>
            map id_field (data r) = [(pg - 1) * ps + 1..min (pg * ps) t] \<and>
            (\<forall>k < length (data r). id_field (data r ! k) = (pg - 1) * ps + int k + 1)) \<and>
         (clock_ok w \<longrightarrow>
           (\<exists>r w'. get_data_with_date_formats (Some pg) (Some ps) (Some t) w = Inr (r, w') \<and>
              map dd_id (data r) = [(pg - 1) * ps + 1..min (pg * ps) t] \<and>
              (\<forall>k < length (data r). dd_id (data r ! k) = (pg - 1) * ps + int k + 1)))"
proof (intro conjI impI)
  from returns_get_data [OF assms, of w]
  obtain r w' where r: "get_data (Some pg) (Some ps) (Some t) w = Inr (r, w')"
    "map id_field (data r) = [(pg - 1) * ps + 1..min (pg * ps) t]"
    unfolding returns_def by blast
  have "\<forall>k < length (data r). id_field (data r ! k) = (pg - 1) * ps + int k + 1"
    using ids_by_position [OF r(2)] by blast
  with r show "\<exists>r w'. get_data (Some pg) (Some ps) (Some t) w = Inr (r, w') \<and>
            map id_field (data r) = [(pg - 1) * ps + 1..min (pg * ps) t] \<and>
            (\<forall>k < length (data r). id_field (data r ! k) = (pg - 1) * ps + int k + 1)"
    by blast
next
  assume "clock_ok w"
  from returns_get_data_with_date_formats [OF assms this]
  obtain r w' where r: "get_data_with_date_formats (Some pg) (Some ps) (Some t) w = Inr (r, w')"
    "map dd_id (data r) = [(pg - 1) * ps + 1..min (pg * ps) t]"
    unfolding returns_def by blast
  have "\<forall>k < length (data r). dd_id (data r ! k) = (pg - 1) * ps + int k + 1"
    using ids_by_position [OF r(2)] by blast
  with r show "\<exists>r w'. get_data_with_date_formats (Some pg) (Some ps) (Some t) w = Inr (r, w') \<and>
              map dd_id (data r) = [(pg - 1) * ps + 1..min (pg * ps) t] \<and>
              (\<forall>k < length (data r). dd_id (data r ! k) = (pg - 1) * ps + int k + 1)"
    by blast
qed

theorem page_identities_witness:
  "(\<exists>r w'. get_data (Some 2) (Some 3) (Some 10) utc_host = Inr (r, w') \<and>
      map id_field (data r) = [4, 5, 6] \<and>
      (\<forall>k < length (data r). id_field (data r ! k) = 4 + int k)) \<and>
   (\<exists>r w'. get_data_with_date_formats (Some 2) (Some 3) (Some 10) utc_host = Inr (r, w') \<and>
      map dd_id (data r) = [4, 5, 6] \<and>
      (\<forall>k < length (data r). dd_id (data r ! k) = 4 + int k))"
  using page_identities [of 2 3 10 utc_host] utc_host_facts(1)
  by (simp add: upto_rec1)

text \<open>
  C4. A valid request for a page past the end (\<open>(page - 1) * page_size \<ge> total\<close>)
  succeeds on both endpoints: the envelope has an empty data list, the total, page
  and page size of the request, the total page count, \<open>has_next\<close> and
  \<open>has_previous\<close> by their definitions (so false and true), and the environment is
  left untouched: no record is synthesized.
\<close>

theorem page_past_the_end:
  assumes "1 \<le> pg" "1 \<le> ps" "ps \<le> 100" "1 \<le> t" "t \<le> 10000" and "t \<le> (pg - 1) * ps"
  shows "(\<exists>r. get_data (Some pg) (Some ps) (Some t) w = Inr (r, w) \<and>
            data r = [] \<and> total_field r = t \<and> page r = pg \<and> page_size r = ps \<and>
            total_pages r = \<lceil>real_of_int t / real_of_int ps\<rceil> \<and>
            has_next r = (pg < total_pages r) \<and> has_previous r = (1 < pg) \<and>
            \<not> has_next r \<and> has_previous r) \<and>
         (\<exists>r. get_data_with_date_formats (Some pg) (Some ps) (Some t) w = Inr (r, w) \<and>
            data r = [] \<and> total_field r = t \<and> page r = pg \<and> page_size r = ps \<and>
            total_pages r = \<lceil>real_of_int t / real_of_int ps\<rceil> \<and>
            has_next r = (pg < total_pages r) \<and> has_previous r = (1 < pg) \<and>
            \<not> has_next r \<and> has_previous r)"
proof -
  have ps: "0 < ps" using assms(2) by simp
  note pe = paginate_empty [OF ps assms(6)]
  note flags = past_the_end [OF assms(2,4,6)]
  show ?thesis
    unfolding get_data_valid [OF assms(1-5)] get_data_with_date_formats_valid [OF assms(1-5)] pe
    using flags ceil_div [OF ps, of t] by simp
qed

theorem page_past_the_end_witness:
  "(\<exists>r. get_data (Some 5) (Some 3) (Some 10) utc_host = Inr (r, utc_host) \<and>
      data r = [] \<and> total_field r = 10 \<and> page r = 5 \<and> page_size r = 3 \<and>
      total_pages r = 4 \<and> \<not> has_next r \<and> has_previous r) \<and>
   (\<exists>r. get_data_with_date_formats (Some 5) (Some 3) (Some 10) utc_host = Inr (r, utc_host) \<and>
      data r = [] \<and> total_field r = 10 \<and> page r = 5 \<and> page_size r = 3 \<and>
      total_pages r = 4 \<and> \<not> has_next r \<and> has_previous r)"
  using page_past_the_end [of 5 3 10 utc_host] by auto

text \<open>
  C7. The pagination plan is a function of the three query parameters alone: two
  runs of an endpoint on the same parameters, whatever the generator draws and the
  clock reads in each, agree on total, page, page size, total pages, has_next,
  has_previous, the number of records and the sequence of their identities (and on
  the error, for a rejected request). The multi-date endpoint reads the clock back
  through the datetime constructor, so its part is for well-formed clocks.
\<close>

theorem planning_is_deterministic:
  "plan_outcome id_field (get_data qp qps qt w1) = plan_outcome id_field (get_data qp qps qt w2) \<and>
   (clock_ok w1 \<and> clock_ok w2 \<longrightarrow>
      plan_outcome dd_id (get_data_with_date_formats qp qps qt w1) =
      plan_outcome dd_id (get_data_with_date_formats qp qps qt w2))"
proof -
  define pg where "pg = (case qp of None \<Rightarrow> 1 | Some x \<Rightarrow> x)"
  define ps where "ps = (case qps of None \<Rightarrow> 10 | Some x \<Rightarrow> x)"
  define t where "t = (case qt of None \<Rightarrow> 1000 | Some x \<Rightarrow> x)"
  show ?thesis
  proof (cases "1 \<le> pg \<and> 1 \<le> ps \<and> ps \<le> 100 \<and> 1 \<le> t \<and> t \<le> 10000")
    case True
    then have v: "1 \<le> pg" "1 \<le> ps" "ps \<le> 100" "1 \<le> t" "t \<le> 10000" by simp_all
    have g: "get_data qp qps qt = paginate generate_data_object pg ps t"
      and d: "get_data_with_date_formats qp qps qt
              = paginate generate_data_object_with_different_dates pg ps t"
      unfolding get_data_split get_data_with_date_formats_split Let_def
        pg_def [symmetric] ps_def [symmetric] t_def [symmetric]
      using True by simp_all
    show ?thesis
      unfolding g d
      by (simp add: plan_outcome_get_data [OF v] plan_outcome_get_data_with_date_formats [OF v])
  next
    case False
    then have g: "get_data qp qps qt = (\<lambda>w. Inl RequestValidationError)"
      and d: "get_data_with_date_formats qp qps qt = (\<lambda>w. Inl RequestValidationError)"
      unfolding get_data_split get_data_with_date_formats_split Let_def
        pg_def [symmetric] ps_def [symmetric] t_def [symmetric]
      by auto
    show ?thesis unfolding g d by simp
  qed
qed

theorem planning_is_deterministic_witness:
  "plan_outcome id_field (get_data (Some 2) (Some 3) (Some 10) utc_host)
     = plan_outcome id_field (get_data (Some 2) (Some 3) (Some 10) (utc_host\<lparr>draws := \<lambda>i. i\<rparr>)) \<and>
   plan_outcome dd_id (get_data_with_date_formats (Some 2) (Some 3) (Some 10) utc_host)
     = plan_outcome dd_id
         (get_data_with_date_formats (Some 2) (Some 3) (Some 10) (utc_host\<lparr>draws := \<lambda>i. i\<rparr>))"
proof -
  have c: "clock_ok (utc_host\<lparr>draws := \<lambda>i. i\<rparr>)"
    using utc_host_facts(1) by (simp add: clock_ok_def)
  show ?thesis
    using planning_is_deterministic [of "Some 2" "Some 3" "Some 10" utc_host
        "utc_host\<lparr>draws := \<lambda>i. i\<rparr>"] utc_host_facts(1) c
    by simp
qed

text \<open>
  C8. A request whose page is below 1, whose page size is outside 1..100 or whose
  total is outside 1..10000 ends in the validation error (status 422) on both
  endpoints, and the pagination body is not run; every other request runs the body
  on values inside the declared ranges (an absent parameter at its default).
\<close>

theorem out_of_range_rejected:
  "(if (\<exists>x. qp = Some x \<and> x < 1) \<or> (\<exists>x. qps = Some x \<and> (x < 1 \<or> 100 < x)) \<or>
       (\<exists>x. qt = Some x \<and> (x < 1 \<or> 10000 < x))
    then get_data qp qps qt w = Inl RequestValidationError \<and>
         get_data_with_date_formats qp qps qt w = Inl RequestValidationError
    else (\<exists>pg ps t. 1 \<le> pg \<and> 1 \<le> ps \<and> ps \<le> 100 \<and> 1 \<le> t \<and> t \<le> 10000 \<and>
            (qp = None \<and> pg = 1 \<or> qp = Some pg) \<and> (qps = None \<and> ps = 10 \<or> qps = Some ps) \<and>
            (qt = None \<and> t = 1000 \<or> qt = Some t) \<and>
            get_data qp qps qt w = paginate generate_data_object pg ps t w \<and>
            get_data_with_date_formats qp qps qt w =
              paginate generate_data_object_with_different_dates pg ps t w)) \<and>
   status_code RequestValidationError = 422"
  by (cases qp; cases qps; cases qt)
     (auto simp: get_data_split get_data_with_date_formats_split)

theorem out_of_range_rejected_witness:
  "get_data (Some 1) (Some 101) (Some 10) utc_host = Inl RequestValidationError \<and>
   get_data_with_date_formats (Some 1) (Some 0) (Some 10) utc_host = Inl RequestValidationError \<and>
   get_data (Some 1) (Some 10) (Some 10001) utc_host = Inl RequestValidationError \<and>
   get_data (Some 0) (Some 10) (Some 10) utc_host = Inl RequestValidationError \<and>
   get_data None None None utc_host = paginate generate_data_object 1 10 1000 utc_host \<and>
   status_code RequestValidationError = 422"
  using out_of_range_rejected [of "Some 1" "Some 101" "Some 10" utc_host]
    out_of_range_rejected [of "Some 1" "Some 0" "Some 10" utc_host]
    out_of_range_rejected [of "Some 1" "Some 10" "Some 10001" utc_host]
    out_of_range_rejected [of "Some 0" "Some 10" "Some 10" utc_host]
    out_of_range_rejected [of None None None utc_host]
  by simp

text \<open>
  C6. Every record of either synthesizer has between 1 and 5 tags, pairwise
  distinct and all from the vocabulary of 14 tags, and between 2 and 4 skills in
  its metadata, pairwise distinct and all from the vocabulary of 6 skills.
\<close>

theorem tags_and_skills:
  "(\<exists>r w'. generate_data_object i w = Inr (r, w') \<and>
      1 \<le> length (tags r) \<and> length (tags r) \<le> 5 \<and> distinct (tags r) \<and>
      set (tags r) \<subseteq> set all_tags \<and>
      2 \<le> length (skills (metadata r)) \<and> length (skills (metadata r)) \<le> 4 \<and>
      distinct (skills (metadata r)) \<and> set (skills (metadata r)) \<subseteq> set all_skills) \<and>
   (clock_ok w \<longrightarrow>
     (\<exists>r w'. generate_data_object_with_different_dates i w = Inr (r, w') \<and>
        1 \<le> length (dd_tags r) \<and> length (dd_tags r) \<le> 5 \<and> distinct (dd_tags r) \<and>
        set (dd_tags r) \<subseteq> set all_tags \<and>
        2 \<le> length (skills (dd_metadata r)) \<and> length (skills (dd_metadata r)) \<le> 4 \<and>
        distinct (skills (dd_metadata r)) \<and> set (skills (dd_metadata r)) \<subseteq> set all_skills)) \<and>
   length all_tags = 14 \<and> distinct all_tags \<and> length all_skills = 6 \<and> distinct all_skills"
proof (intro conjI impI)
  from returns_generate_data_object [of i w]
  show "\<exists>r w'. generate_data_object i w = Inr (r, w') \<and>
      1 \<le> length (tags r) \<and> length (tags r) \<le> 5 \<and> distinct (tags r) \<and>
      set (tags r) \<subseteq> set all_tags \<and>
      2 \<le> length (skills (metadata r)) \<and> length (skills (metadata r)) \<le> 4 \<and>
      distinct (skills (metadata r)) \<and> set (skills (metadata r)) \<subseteq> set all_skills"
    unfolding returns_def by blast
next
  assume "clock_ok w"
  from returns_generate_data_object_with_different_dates [OF this, of i]
  show "\<exists>r w'. generate_data_object_with_different_dates i w = Inr (r, w') \<and>
        1 \<le> length (dd_tags r) \<and> length (dd_tags r) \<le> 5 \<and> distinct (dd_tags r) \<and>
        set (dd_tags r) \<subseteq> set all_tags \<and>
        2 \<le> length (skills (dd_metadata r)) \<and> length (skills (dd_metadata r)) \<le> 4 \<and>
        distinct (skills (dd_metadata r)) \<and> set (skills (dd_metadata r)) \<subseteq> set all_skills"
    unfolding returns_def by blast
qed (simp_all add: all_tags_def all_skills_def)

theorem tags_and_skills_witness:
  "(\<exists>r w'. generate_data_object 7 utc_host = Inr (r, w') \<and>
      1 \<le> length (tags r) \<and> length (tags r) \<le> 5 \<and> distinct (tags r) \<and>
      set (tags r) \<subseteq> set all_tags \<and>
      2 \<le> length (skills (metadata r)) \<and> length (skills (metadata r)) \<le> 4 \<and>
      distinct (skills (metadata r)) \<and> set (skills (metadata r)) \<subseteq> set all_skills) \<and>
   (\<exists>r w'. generate_data_object_with_different_dates 7 utc_host = Inr (r, w') \<and>
      1 \<le> length (dd_tags r) \<and> length (dd_tags r) \<le> 5 \<and> distinct (dd_tags r) \<and>
      set (dd_tags r) \<subseteq> set all_tags \<and>
      2 \<le> length (skills (dd_metadata r)) \<and> length (skills (dd_metadata r)) \<le> 4 \<and>
      distinct (skills (dd_metadata r)) \<and> set (skills (dd_metadata r)) \<subseteq> set all_skills)"
  using tags_and_skills [of 7 utc_host] utc_host_facts(1) by blast

text \<open>
  C9. Both synthesizers return a record for every identity and raise nothing (the
  multi-date one on a host whose clock reads valid datetimes). In particular the
  date constructor accepts every year in 1940..2005, month in 1..12 and day in
  1..28, and replacing year (2020..2024), month, day (1..28), hour and minute of a
  valid datetime gives a valid datetime.
\<close>

theorem synthesizers_total:
  "(\<exists>r w'. generate_data_object i w = Inr (r, w')) \<and>
   (clock_ok w \<longrightarrow> (\<exists>r w'. generate_data_object_with_different_dates i w = Inr (r, w'))) \<and>
   (\<forall>y m d. 1940 \<le> y \<and> y \<le> 2005 \<and> 1 \<le> m \<and> m \<le> 12 \<and> 1 \<le> d \<and> d \<le> 28 \<longrightarrow>
      new_date y m d = Inr \<lparr>year = y, month = m, day = d\<rparr>) \<and>
   (\<forall>t y m d h mi.
      valid_datetime t \<and> 2020 \<le> y \<and> y \<le> 2024 \<and> 1 \<le> m \<and> m \<le> 12 \<and> 1 \<le> d \<and> d \<le> 28 \<and>
      0 \<le> h \<and> h \<le> 23 \<and> 0 \<le> mi \<and> mi \<le> 59 \<longrightarrow>
      (\<exists>dt. replace_ymdhm t y m d h mi = Inr dt \<and> valid_datetime dt))"
proof (intro conjI impI allI)
  from returns_generate_data_object [of i w]
  show "\<exists>r w'. generate_data_object i w = Inr (r, w')"
    unfolding returns_def by blast
next
  assume "clock_ok w"
  from returns_generate_data_object_with_different_dates [OF this, of i]
  show "\<exists>r w'. generate_data_object_with_different_dates i w = Inr (r, w')"
    unfolding returns_def by blast
next
  fix y m d :: int
  assume "1940 \<le> y \<and> y \<le> 2005 \<and> 1 \<le> m \<and> m \<le> 12 \<and> 1 \<le> d \<and> d \<le> 28"
  then have "check_date_fields y m d" by (intro check_date_fields_28) simp_all
  then show "new_date y m d = Inr \<lparr>year = y, month = m, day = d\<rparr>"
    by (simp add: new_date_def)
next
  fix t and y m d h mi :: int
  assume "valid_datetime t \<and> 2020 \<le> y \<and> y \<le> 2024 \<and> 1 \<le> m \<and> m \<le> 12 \<and> 1 \<le> d \<and> d \<le> 28 \<and>
      0 \<le> h \<and> h \<le> 23 \<and> 0 \<le> mi \<and> mi \<le> 59"
  then show "\<exists>dt. replace_ymdhm t y m d h mi = Inr dt \<and> valid_datetime dt"
    by (intro replace_ymdhm_valid) simp_all
qed

theorem synthesizers_total_witness:
  "(\<exists>r w'. generate_data_object 1 utc_host = Inr (r, w')) \<and>
   (\<exists>r w'. generate_data_object_with_different_dates 1 utc_host = Inr (r, w')) \<and>
   new_date 2004 2 28 = Inr \<lparr>year = 2004, month = 2, day = 28\<rparr> \<and>
   (\<exists>dt. replace_ymdhm (clock utc_host 0) 2023 2 28 23 59 = Inr dt \<and> valid_datetime dt)"
proof -
  have v: "valid_datetime (clock utc_host 0)"
    using utc_host_facts(1) by (simp add: clock_ok_def)
  have "new_date 2004 2 28 = Inr \<lparr>year = 2004, month = 2, day = 28\<rparr>"
    using synthesizers_total [of 1 utc_host] by simp
  moreover have "\<exists>dt. replace_ymdhm (clock utc_host 0) 2023 2 28 23 59 = Inr dt \<and> valid_datetime dt"
    using synthesizers_total [of 1 utc_host] v by simp
  ultimately show ?thesis
    using synthesizers_total [of 1 utc_host] utc_host_facts(1) by blast
qed

text \<open>
  C10. Every record of the standard synthesizer, in its JSON form, validates
  against the document of the schema endpoint: each of the 13 required fields is
  present and not null, the age (drawn from 18..80) is within the declared bounds
  0..150, and a null field can only be \<open>score\<close> or \<open>description\<close>, which are exactly
  the properties left out of the required list; both of them are null in the record
  synthesized on a host whose generator always draws 13.
\<close>

theorem records_conform_to_schema:
  "(\<exists>r w'. generate_data_object i w = Inr (r, w') \<and>
      validates get_schema (data_object_json r) \<and>
      (\<forall>k \<in> set (required get_schema).
         \<exists>v. json_field k (data_object_json r) = Some v \<and> v \<noteq> JNull) \<and>
      18 \<le> age r \<and> age r \<le> 80 \<and>
      (\<forall>k. json_field k (data_object_json r) = Some JNull \<longrightarrow>
           k = ''score'' \<or> k = ''description'')) \<and>
   length (required get_schema) = 13 \<and>
   map_option minimum (map_of (properties get_schema) ''age'') = Some (Some 0) \<and>
   map_option maximum (map_of (properties get_schema) ''age'') = Some (Some 150) \<and>
   filter (\<lambda>k. k \<notin> set (required get_schema)) (map fst (properties get_schema))
     = [''score'', ''description''] \<and>
   (\<exists>r w'. generate_data_object i utc_host = Inr (r, w') \<and>
      json_field ''score'' (data_object_json r) = Some JNull \<and>
      json_field ''description'' (data_object_json r) = Some JNull)"
proof (intro conjI)
  from returns_generate_data_object [of i w]
  obtain r w' where r: "generate_data_object i w = Inr (r, w')" "18 \<le> age r" "age r \<le> 80"
    unfolding returns_def by blast
  have "validates get_schema (data_object_json r)"
    using r(2,3) by (intro validates_data_object_json) simp_all
  then show "\<exists>r w'. generate_data_object i w = Inr (r, w') \<and>
      validates get_schema (data_object_json r) \<and>
      (\<forall>k \<in> set (required get_schema).
         \<exists>v. json_field k (data_object_json r) = Some v \<and> v \<noteq> JNull) \<and>
      18 \<le> age r \<and> age r \<le> 80 \<and>
      (\<forall>k. json_field k (data_object_json r) = Some JNull \<longrightarrow>
           k = ''score'' \<or> k = ''description'')"
    using r required_fields_present [of r] only_optional_fields_null [of _ r] by blast
next
  have "returns (generate_data_object i) utc_host (\<lambda>r. score r = None \<and> description r = None)"
    by (rule returns_weaken [OF returns_generate_data_object])
       (simp add: utc_host_facts(2,3))
  then obtain r w' where r: "generate_data_object i utc_host = Inr (r, w')"
    "score r = None" "description r = None"
    unfolding returns_def by blast
  from r(2,3) have "json_field ''score'' (data_object_json r) = Some JNull"
    "json_field ''description'' (data_object_json r) = Some JNull"
    by (simp_all add: json_field_def data_object_json_def)
  with r(1) show "\<exists>r w'. generate_data_object i utc_host = Inr (r, w') \<and>
      json_field ''score'' (data_object_json r) = Some JNull \<and>
      json_field ''description'' (data_object_json r) = Some JNull"
    by blast
qed (rule schema_shape)+

theorem records_conform_to_schema_witness:
  "\<exists>r w'. generate_data_object 3 utc_host = Inr (r, w') \<and>
      validates get_schema (data_object_json r) \<and>
      (\<exists>v. json_field ''metadata'' (data_object_json r) = Some v \<and> v \<noteq> JNull) \<and>
      18 \<le> age r \<and> age r \<le> 80 \<and>
      json_field ''age'' (data_object_json r) \<noteq> Some JNull \<and>
      json_field ''score'' (data_object_json r) = Some JNull \<and>
      json_field ''description'' (data_object_json r) = Some JNull"
proof -
  have m: "''metadata'' \<in> set (required get_schema)" by (simp add: get_schema_def)
  from records_conform_to_schema [of 3 utc_host]
  obtain r w' r' w'' where r: "generate_data_object 3 utc_host = Inr (r, w')"
    "validates get_schema (data_object_json r)"
    "\<forall>k \<in> set (required get_schema).
         \<exists>v. json_field k (data_object_json r) = Some v \<and> v \<noteq> JNull"
    "18 \<le> age r" "age r \<le> 80"
    "\<forall>k. json_field k (data_object_json r) = Some JNull \<longrightarrow>
           k = ''score'' \<or> k = ''description''"
    and r': "generate_data_object 3 utc_host = Inr (r', w'')"
    "json_field ''score'' (data_object_json r') = Some JNull"
    "json_field ''description'' (data_object_json r') = Some JNull"
    by blast
  have same: "r' = r" using r(1) r'(1) by simp
  have "json_field ''age'' (data_object_json r) \<noteq> Some JNull" using r(6) by auto
  then show ?thesis using r(1,2,4,5) r(3) m r'(2,3) same by blast
qed




end
